theory Spec2Isabelle
  imports Main "HOL-Library.Monad_Syntax"
begin

unbundle bit_operations_syntax

section \<open>Data model\<close>

text \<open>
  The shadow tree differentiator of \<^verbatim>\<open>Differentiator.cpp\<close> and the mutation
  constructors of \<^verbatim>\<open>ShadowViewMutation.cpp\<close>, as HOL functions.

  Conventions of the embedding.
  \<^item> Pointers to immutable objects (\<^verbatim>\<open>ShadowNode const *\<close>,
    \<^verbatim>\<open>ShadowViewNodePair const *\<close>) are the objects themselves; a pointer that may be
    null is an \<open>option\<close>. Shared references compared by identity (props, event emitter,
    state) are natural numbers.
  \<^item> \<^verbatim>\<open>Float\<close> coordinates are integers: the differentiator only adds offsets and
    compares metrics for equality.
  \<^item> Undefined behaviour of the C++ (an element access out of range, a dereference of
    a null or past-the-end iterator) is the result \<open>None\<close>.
  \<^item> \<^verbatim>\<open>assert\<close> is compiled out (\<^verbatim>\<open>NDEBUG\<close>): the code after it runs whatever
    the condition. Every run in which the assertions hold is a run of this model.
  \<^item> The \<^verbatim>\<open>#ifndef ANDROID\<close> block is the parameter \<open>android\<close>.
\<close>

type_synonym Tag = int

type_synonym Point = "int \<times> int"

record LayoutMetrics =
  frame_origin :: Point
  frame_size :: Point
  otherMetrics :: nat

text \<open>
  Modelled from the spec: \<^verbatim>\<open>EmptyLayoutMetrics\<close> is declared in a header that is
  missing; it is the sentinel "no layout applied" (a frame of negative size).
\<close>

definition EmptyLayoutMetrics :: LayoutMetrics where
  "EmptyLayoutMetrics = \<lparr>frame_origin = (0, 0), frame_size = (-1, -1), otherMetrics = 0\<rparr>"

datatype Trait = FormsView | FormsStackingContext | Hidden

datatype ShadowNode = ShadowNode
  (getTag: Tag)
  (getComponentName: string)
  (getProps: nat)
  (getEventEmitter: nat)
  (getLayoutMetrics: LayoutMetrics)
  (getState: nat)
  (getTraits: "Trait set")
  (getOrderIndex: int)
  (getChildren: "ShadowNode list")

record ShadowView =
  tag :: Tag
  componentName :: string
  props :: nat
  eventEmitter :: nat
  layoutMetrics :: LayoutMetrics
  state :: nat

text \<open>
  Modelled from the spec: the constructors of \<^verbatim>\<open>ShadowView\<close> are in
  \<^verbatim>\<open>ShadowView.cpp\<close>, which is missing. A shadow view is the projection of a node on
  tag, component name, props, event emitter, layout metrics and state; the default one
  has value-initialised fields and empty layout metrics.
\<close>

definition ShadowView_of :: "ShadowNode \<Rightarrow> ShadowView" where
  "ShadowView_of n =
     \<lparr>tag = getTag n, componentName = getComponentName n, props = getProps n,
      eventEmitter = getEventEmitter n, layoutMetrics = getLayoutMetrics n,
      state = getState n\<rparr>"

definition ShadowView_default :: ShadowView where
  "ShadowView_default =
     \<lparr>tag = 0, componentName = [], props = 0, eventEmitter = 0,
      layoutMetrics = EmptyLayoutMetrics, state = 0\<rparr>"

datatype ShadowViewNodePair = ShadowViewNodePair
  (shadowView: ShadowView)
  (shadowNode: ShadowNode)

datatype Type = Create | Delete | Insert | Remove | Update

record ShadowViewMutation =
  type :: Type
  parentShadowView :: ShadowView
  oldChildShadowView :: ShadowView
  newChildShadowView :: ShadowView
  index :: int

subsection \<open>ShadowViewMutation.cpp\<close>

text \<open>
  Modelled from the spec: the declaration of the struct (\<^verbatim>\<open>ShadowViewMutation.h\<close>) is
  missing. Its members are, in this order, type, parentShadowView, oldChildShadowView,
  newChildShadowView, index (section 3 of the specification; the order is also the one
  that the member comments of \<^verbatim>\<open>DeleteMutation\<close>, \<^verbatim>\<open>InsertMutation\<close>,
  \<^verbatim>\<open>RemoveMutation\<close> and \<^verbatim>\<open>UpdateMutation\<close> follow). A braced initialiser list
  \<^verbatim>\<open>{a, b, c, d, e}\<close> initialises the members by position; the comments inside it
  name nothing.
\<close>

definition aggregate :: "Type \<Rightarrow> ShadowView \<Rightarrow> ShadowView \<Rightarrow> ShadowView \<Rightarrow> int \<Rightarrow> ShadowViewMutation" where
  "aggregate e1 e2 e3 e4 e5 =
     \<lparr>type = e1, parentShadowView = e2, oldChildShadowView = e3,
      newChildShadowView = e4, index = e5\<rparr>"

definition CreateMutation :: "ShadowView \<Rightarrow> ShadowViewMutation" where
  "CreateMutation sv = aggregate Create ShadowView_default sv ShadowView_default (-1)"

definition DeleteMutation :: "ShadowView \<Rightarrow> ShadowViewMutation" where
  "DeleteMutation sv = aggregate Delete ShadowView_default sv ShadowView_default (-1)"

definition InsertMutation :: "ShadowView \<Rightarrow> ShadowView \<Rightarrow> int \<Rightarrow> ShadowViewMutation" where
  "InsertMutation parent child i = aggregate Insert parent ShadowView_default child i"

definition RemoveMutation :: "ShadowView \<Rightarrow> ShadowView \<Rightarrow> int \<Rightarrow> ShadowViewMutation" where
  "RemoveMutation parent child i = aggregate Remove parent child ShadowView_default i"

definition UpdateMutation :: "ShadowView \<Rightarrow> ShadowView \<Rightarrow> ShadowView \<Rightarrow> int \<Rightarrow> ShadowViewMutation" where
  "UpdateMutation parent old new i = aggregate Update parent old new i"

section \<open>TinyMap\<close>

text \<open>
  \<^verbatim>\<open>TinyMap<Tag, ValueT>\<close>: the members \<^verbatim>\<open>vector_\<close>, \<^verbatim>\<open>numErased_\<close> and
  \<^verbatim>\<open>erasedAtFront_\<close>. An iterator (\<^verbatim>\<open>Pair *\<close>) is \<open>None\<close> for the null pointer and
  \<open>Some i\<close> for the address of element \<open>i\<close> of the vector (\<open>i = length\<close>: one past the
  last element).
\<close>

record 'v TinyMap =
  vector :: "(Tag \<times> 'v) list"
  numErased :: nat
  erasedAtFront :: nat

type_synonym Iterator = "nat option"

definition TinyMap_empty :: "'v TinyMap" where
  "TinyMap_empty = \<lparr>vector = [], numErased = 0, erasedAtFront = 0\<rparr>"

text \<open>The private \<^verbatim>\<open>begin_()\<close>.\<close>

definition TinyMap_begin' :: "'v TinyMap \<Rightarrow> Iterator" where
  "TinyMap_begin' m =
     (if vector m = [] \<or> length (vector m) = numErased m then None else Some 0)"

definition TinyMap_end :: "'v TinyMap \<Rightarrow> Iterator" where
  "TinyMap_end m =
     (if vector m = [] \<or> numErased m = length (vector m) then None
      else Some (length (vector m)))"

definition cleanVector :: "bool \<Rightarrow> 'v TinyMap \<Rightarrow> 'v TinyMap" where
  "cleanVector forceClean m =
     (if (numErased m < length (vector m) div 2 \<and> \<not> forceClean) \<or> vector m = [] \<or>
         numErased m = 0 \<or> numErased m = erasedAtFront m
      then m
      else (if numErased m = length (vector m) then m\<lparr>vector := []\<rparr>
            else m\<lparr>vector := filter (\<lambda>item. fst item \<noteq> 0) (vector m)\<rparr>)
           \<lparr>numErased := 0, erasedAtFront := 0\<rparr>)"

definition TinyMap_begin :: "'v TinyMap \<Rightarrow> Iterator \<times> 'v TinyMap" where
  "TinyMap_begin m0 =
     (let m = cleanVector (erasedAtFront m0 \<noteq> numErased m0) m0 in
      (case TinyMap_begin' m of
         Some it \<Rightarrow> (Some (it + erasedAtFront m), m)
       | None \<Rightarrow> (None, m)))"

text \<open>
  The loop of \<^verbatim>\<open>find\<close>, entered when \<^verbatim>\<open>begin_()\<close> is not null, so that
  \<^verbatim>\<open>end()\<close> is the address one past the last element. An iterator beyond that
  address never meets \<^verbatim>\<open>end()\<close> and is dereferenced out of range.
\<close>

function find_loop :: "Tag \<Rightarrow> (Tag \<times> 'v) list \<Rightarrow> nat \<Rightarrow> nat option" where
  "find_loop key v it =
     (if it = length v then Some it
      else if length v < it then None
      else if fst (v ! it) = key then Some it
      else find_loop key v (Suc it))"
  by pat_completeness auto
termination
  by (relation "measure (\<lambda>(key, v, it). length v - it)") auto

declare find_loop.simps [simp del]

definition TinyMap_find :: "Tag \<Rightarrow> 'v TinyMap \<Rightarrow> (Iterator \<times> 'v TinyMap) option" where
  "TinyMap_find key m0 =
     (let m = cleanVector False m0 in
      if TinyMap_begin' m = None then Some (TinyMap_end m, m)
      else (case find_loop key (vector m) (erasedAtFront m) of
              None \<Rightarrow> None
            | Some it \<Rightarrow> Some (Some it, m)))"

definition TinyMap_insert :: "Tag \<times> 'v \<Rightarrow> 'v TinyMap \<Rightarrow> 'v TinyMap" where
  "TinyMap_insert pair m = m\<lparr>vector := vector m @ [pair]\<rparr>"

text \<open>
  \<^verbatim>\<open>erase\<close> writes through the iterator, then compares it with
  \<^verbatim>\<open>begin_() + erasedAtFront_\<close> (evaluated before \<^verbatim>\<open>numErased_\<close> is incremented).
\<close>

definition TinyMap_erase :: "Iterator \<Rightarrow> 'v TinyMap \<Rightarrow> 'v TinyMap option" where
  "TinyMap_erase iterator m0 =
     (case iterator of
        None \<Rightarrow> None
      | Some i \<Rightarrow>
          if length (vector m0) \<le> i then None
          else
            (let m1 = m0\<lparr>vector := (vector m0)[i := (0, snd (vector m0 ! i))]\<rparr>;
                 m2 = (if Some i = map_option (\<lambda>b. b + erasedAtFront m1) (TinyMap_begin' m1)
                       then m1\<lparr>erasedAtFront := erasedAtFront m1 + 1\<rparr> else m1)
             in Some (m2\<lparr>numErased := numErased m2 + 1\<rparr>)))"

section \<open>Flattening\<close>

definition reorderInPlaceIfNeeded :: "ShadowViewNodePair list \<Rightarrow> ShadowViewNodePair list" where
  "reorderInPlaceIfNeeded pairs =
     (if length pairs < 2 then pairs
      else if \<not> list_ex (\<lambda>pair. getOrderIndex (shadowNode pair) \<noteq> 0) pairs then pairs
      else sort_key (\<lambda>pair. getOrderIndex (shadowNode pair)) pairs)"

text \<open>
  The first statements of the loop body of \<^verbatim>\<open>sliceChildShadowNodeViewPairsRecursively\<close>:
  the view of the child, moved by the offset, and the offset for the child's children.
\<close>

definition offsetView :: "Point \<Rightarrow> ShadowNode \<Rightarrow> ShadowView \<times> Point" where
  "offsetView layoutOffset childShadowNode =
     (let shadowView0 = ShadowView_of childShadowNode;
          origin0 = layoutOffset
      in if layoutMetrics shadowView0 \<noteq> EmptyLayoutMetrics
         then (shadowView0\<lparr>layoutMetrics := (layoutMetrics shadowView0)
                 \<lparr>frame_origin :=
                    (fst (frame_origin (layoutMetrics shadowView0)) + fst layoutOffset,
                     snd (frame_origin (layoutMetrics shadowView0)) + snd layoutOffset)\<rparr>\<rparr>,
               (fst origin0 + fst (frame_origin (layoutMetrics shadowView0)),
                snd origin0 + snd (frame_origin (layoutMetrics shadowView0))))
         else (shadowView0, origin0))"

text \<open>
  \<^verbatim>\<open>sliceChildShadowNodeViewPairsRecursively\<close> appends to \<open>pairList\<close>; its loop over
  the children of the node is \<open>sliceChildren\<close>.
\<close>

fun sliceChildShadowNodeViewPairsRecursively ::
  "bool \<Rightarrow> Point \<Rightarrow> ShadowNode \<Rightarrow> ShadowViewNodePair list \<Rightarrow> ShadowViewNodePair list"
and sliceChildren ::
  "bool \<Rightarrow> Point \<Rightarrow> ShadowNode list \<Rightarrow> ShadowViewNodePair list \<Rightarrow> ShadowViewNodePair list"
where
  "sliceChildShadowNodeViewPairsRecursively android layoutOffset
       (ShadowNode t cn pr ee lm st tr oi children) pairList =
     sliceChildren android layoutOffset children pairList"
| "sliceChildren android layoutOffset [] pairList = pairList"
| "sliceChildren android layoutOffset (childShadowNode # rest) pairList =
     sliceChildren android layoutOffset rest
       (if \<not> android \<and> Hidden \<in> getTraits childShadowNode then pairList
        else
          (let (sv, origin) = offsetView layoutOffset childShadowNode
           in if FormsStackingContext \<in> getTraits childShadowNode
              then pairList @ [ShadowViewNodePair sv childShadowNode]
              else sliceChildShadowNodeViewPairsRecursively android origin childShadowNode
                     (if FormsView \<in> getTraits childShadowNode
                      then pairList @ [ShadowViewNodePair sv childShadowNode]
                      else pairList)))"

definition sliceChildShadowNodeViewPairs :: "bool \<Rightarrow> ShadowNode \<Rightarrow> ShadowViewNodePair list" where
  "sliceChildShadowNodeViewPairs android node =
     (if FormsStackingContext \<notin> getTraits node \<and> FormsView \<in> getTraits node then []
      else sliceChildShadowNodeViewPairsRecursively android (0, 0) node [])"

section \<open>Reparenting metadata\<close>

text \<open>
  Modelled from the spec: the enumerators of \<^verbatim>\<open>ShadowViewMutation::Type\<close> are declared
  in the missing header; \<open>opExists\<close> and \<open>shouldEraseOp\<close> are bitsets of mutation types,
  so every type is one bit.
\<close>

fun typeBit :: "Type \<Rightarrow> int" where
  "typeBit Create = 1"
| "typeBit Delete = 2"
| "typeBit Insert = 4"
| "typeBit Remove = 8"
| "typeBit Update = 16"

record OperationsOnTag =
  shouldEraseOp :: int
  opExists :: int
  removeInsertIndex :: int
  parentTag :: Tag
  oldNode :: "ShadowNode option"
  newNode :: "ShadowNode option"

definition OperationsOnTag_init :: OperationsOnTag where
  "OperationsOnTag_init =
     \<lparr>shouldEraseOp = 0, opExists = 0, removeInsertIndex = -1, parentTag = -1,
      oldNode = None, newNode = None\<rparr>"

record ReparentingMetadata =
  enabled :: bool
  reparentingOperations :: int
  tagsToOperations :: "Tag \<rightharpoonup> OperationsOnTag"

definition ReparentingMetadata_init :: "bool \<Rightarrow> ReparentingMetadata" where
  "ReparentingMetadata_init en =
     \<lparr>enabled = en, reparentingOperations = 0, tagsToOperations = Map.empty\<rparr>"

definition shouldRemoveDeleteUpdate ::
  "Tag \<Rightarrow> ShadowNode \<Rightarrow> int \<Rightarrow> ReparentingMetadata \<Rightarrow>
   (bool \<times> bool \<times> ShadowNode option) \<times> ReparentingMetadata" where
  "shouldRemoveDeleteUpdate pTag node idx meta =
     (if \<not> enabled meta then ((True, True, None), meta)
      else
        (case tagsToOperations meta (getTag node) of
           None \<Rightarrow>
             (let tagOperations = OperationsOnTag_init
                    \<lparr>removeInsertIndex := idx, parentTag := pTag,
                     opExists := opExists OperationsOnTag_init OR (typeBit Remove OR typeBit Delete),
                     oldNode := Some node\<rparr>
              in ((True, True, None),
                  meta\<lparr>tagsToOperations := (tagsToOperations meta)(getTag node \<mapsto> tagOperations)\<rparr>))
         | Some ops \<Rightarrow>
             (let shouldRemove =
                    (\<not> (opExists ops AND typeBit Insert \<noteq> 0 \<and> removeInsertIndex ops = idx \<and>
                        parentTag ops = pTag));
                  ops1 = ops\<lparr>shouldEraseOp := shouldEraseOp ops OR (opExists ops AND typeBit Create)\<rparr>;
                  ops2 = ops1\<lparr>shouldEraseOp := shouldEraseOp ops1 OR
                           (if shouldRemove then 0 else opExists ops1 AND typeBit Insert)\<rparr>;
                  meta1 = meta\<lparr>tagsToOperations := (tagsToOperations meta)(getTag node \<mapsto> ops2)\<rparr>;
                  meta2 = (if shouldEraseOp ops2 \<noteq> 0
                           then meta1\<lparr>reparentingOperations := reparentingOperations meta1 + 1\<rparr>
                           else meta1)
              in ((shouldRemove, False, newNode ops2), meta2))))"

definition shouldCreateInsertUpdate ::
  "Tag \<Rightarrow> ShadowNode \<Rightarrow> int \<Rightarrow> ReparentingMetadata \<Rightarrow>
   (bool \<times> bool \<times> ShadowNode option) \<times> ReparentingMetadata" where
  "shouldCreateInsertUpdate pTag node idx meta =
     (if \<not> enabled meta then ((True, True, None), meta)
      else
        (case tagsToOperations meta (getTag node) of
           None \<Rightarrow>
             (let tagOperations = OperationsOnTag_init
                    \<lparr>removeInsertIndex := idx,
                     opExists := opExists OperationsOnTag_init OR (typeBit Create OR typeBit Insert),
                     newNode := Some node\<rparr>
              in ((True, True, None),
                  meta\<lparr>tagsToOperations := (tagsToOperations meta)(getTag node \<mapsto> tagOperations)\<rparr>))
         | Some ops \<Rightarrow>
             (let shouldInsert =
                    (\<not> (opExists ops AND typeBit Remove \<noteq> 0 \<and> removeInsertIndex ops = idx \<and>
                        parentTag ops = pTag));
                  ops1 = ops\<lparr>shouldEraseOp := shouldEraseOp ops OR (opExists ops AND typeBit Delete)\<rparr>;
                  ops2 = ops1\<lparr>shouldEraseOp := shouldEraseOp ops1 OR
                           (if shouldInsert then 0 else opExists ops1 AND typeBit Remove)\<rparr>;
                  meta1 = meta\<lparr>tagsToOperations := (tagsToOperations meta)(getTag node \<mapsto> ops2)\<rparr>;
                  meta2 = (if shouldEraseOp ops2 \<noteq> 0
                           then meta1\<lparr>reparentingOperations := reparentingOperations meta1 + 1\<rparr>
                           else meta1)
              in ((shouldInsert, False, oldNode ops2), meta2))))"

text \<open>
  \<^verbatim>\<open>shouldCreateUpdate\<close> reads \<^verbatim>\<open>it->second\<close> after an assertion only: with no record
  for the tag, \<^verbatim>\<open>it\<close> is \<^verbatim>\<open>end()\<close> and the read is undefined.
\<close>

definition shouldCreateUpdate ::
  "ShadowNode \<Rightarrow> ReparentingMetadata \<Rightarrow> ((bool \<times> ShadowNode option) \<times> ReparentingMetadata) option" where
  "shouldCreateUpdate node meta =
     (if \<not> enabled meta then Some ((True, None), meta)
      else
        (case tagsToOperations meta (getTag node) of
           None \<Rightarrow> None
         | Some ops \<Rightarrow>
             if opExists ops AND typeBit Delete \<noteq> 0
             then
               (let ops1 = ops\<lparr>shouldEraseOp := shouldEraseOp ops OR typeBit Delete\<rparr>;
                    ops2 = ops1\<lparr>newNode := Some node\<rparr>
                in Some ((False, oldNode ops2),
                     meta\<lparr>reparentingOperations := reparentingOperations meta + 1,
                          tagsToOperations := (tagsToOperations meta)(getTag node \<mapsto> ops2)\<rparr>))
             else
               Some ((True, None),
                 meta\<lparr>tagsToOperations := (tagsToOperations meta)
                        (getTag node \<mapsto> ops\<lparr>opExists := opExists ops OR typeBit Create\<rparr>)\<rparr>)))"

text \<open>
  \<^verbatim>\<open>markInserted\<close>: in the branch \<^verbatim>\<open>it == tagsToOperations_.end()\<close> the statement
  \<^verbatim>\<open>it->second.opExists |= Insert\<close> writes through the past-the-end iterator.
\<close>

definition markInserted ::
  "Tag \<Rightarrow> ShadowNode \<Rightarrow> int \<Rightarrow> ReparentingMetadata \<Rightarrow> ReparentingMetadata option" where
  "markInserted pTag node idx meta =
     (if \<not> enabled meta then Some meta
      else
        (case tagsToOperations meta (getTag node) of
           None \<Rightarrow> None
         | Some ops \<Rightarrow>
             Some (meta\<lparr>tagsToOperations := (tagsToOperations meta)
                     (getTag node \<mapsto> ops\<lparr>opExists := opExists ops OR typeBit Insert\<rparr>)\<rparr>)))"

definition removeUselessRecords :: "ReparentingMetadata \<Rightarrow> ReparentingMetadata" where
  "removeUselessRecords meta =
     (if \<not> enabled meta then meta
      else meta\<lparr>tagsToOperations := (\<lambda>t.
             case tagsToOperations meta t of
               None \<Rightarrow> None
             | Some op \<Rightarrow> if shouldEraseOp op = 0 then None else Some op)\<rparr>)"

section \<open>The differentiator\<close>

record Buckets =
  createMutations :: "ShadowViewMutation list"
  deleteMutations :: "ShadowViewMutation list"
  insertMutations :: "ShadowViewMutation list"
  removeMutations :: "ShadowViewMutation list"
  updateMutations :: "ShadowViewMutation list"
  downwardMutations :: "ShadowViewMutation list"
  destructiveDownwardMutations :: "ShadowViewMutation list"

definition Buckets_empty :: Buckets where
  "Buckets_empty =
     \<lparr>createMutations = [], deleteMutations = [], insertMutations = [], removeMutations = [],
      updateMutations = [], downwardMutations = [], destructiveDownwardMutations = []\<rparr>"

text \<open>The seven \<^verbatim>\<open>std::move\<close> calls that end the recursive function.\<close>

definition allMutations :: "Buckets \<Rightarrow> ShadowViewMutation list" where
  "allMutations b =
     destructiveDownwardMutations b @ updateMutations b @ rev (removeMutations b) @
     deleteMutations b @ createMutations b @ downwardMutations b @ insertMutations b"

text \<open>
  The target of a recursive call on grandchildren:
  \<^verbatim>\<open>*(newGrandChildPairs.size() ? &downwardMutations : &destructiveDownwardMutations)\<close>.
\<close>

definition pushDown :: "ShadowViewNodePair list \<Rightarrow> ShadowViewMutation list \<Rightarrow> Buckets \<Rightarrow> Buckets" where
  "pushDown newGrandChildPairs ms b =
     (if newGrandChildPairs \<noteq> [] then b\<lparr>downwardMutations := downwardMutations b @ ms\<rparr>
      else b\<lparr>destructiveDownwardMutations := destructiveDownwardMutations b @ ms\<rparr>)"

definition pushUpdate :: "ShadowView \<Rightarrow> ShadowView \<Rightarrow> ShadowView \<Rightarrow> int \<Rightarrow> Buckets \<Rightarrow> Buckets" where
  "pushUpdate parent old new i b =
     (if old \<noteq> new
      then b\<lparr>updateMutations := updateMutations b @ [UpdateMutation parent old new i]\<rparr>
      else b)"

text \<open>The loop that fills \<open>newRemainingPairs\<close>; it leaves \<open>index\<close> at the size of the new list.\<close>

function fillRemaining ::
  "ShadowViewNodePair list \<Rightarrow> nat \<Rightarrow> ShadowViewNodePair TinyMap \<Rightarrow> ShadowViewNodePair TinyMap \<times> nat" where
  "fillRemaining newChildPairs idx m =
     (if idx < length newChildPairs
      then fillRemaining newChildPairs (Suc idx)
             (TinyMap_insert (tag (shadowView (newChildPairs ! idx)), newChildPairs ! idx) m)
      else (m, idx))"
  by pat_completeness auto
termination
  by (relation "measure (\<lambda>(ps, idx, m). length ps - idx)") auto

declare fillRemaining.simps [simp del]

definition TinyMap_deref :: "Iterator \<Rightarrow> 'v TinyMap \<Rightarrow> (Tag \<times> 'v) option" where
  "TinyMap_deref it m =
     (case it of None \<Rightarrow> None
      | Some i \<Rightarrow> if i < length (vector m) then Some (vector m ! i) else None)"

text \<open>The last statements of the loop of stage 4 (insertion of the new pair).\<close>

definition insertNew ::
  "ReparentingMetadata \<Rightarrow> ShadowView \<Rightarrow> ShadowViewNodePair list \<Rightarrow> nat \<Rightarrow> Buckets \<Rightarrow>
   ShadowViewNodePair TinyMap \<Rightarrow> (ReparentingMetadata \<times> Buckets \<times> ShadowViewNodePair TinyMap) option" where
  "insertNew meta parentView newChildPairs newIndex b newInsertedPairs =
     (if length newChildPairs \<le> newIndex then None
      else
        (let newChildPair = newChildPairs ! newIndex in
         case markInserted (tag parentView) (shadowNode newChildPair) (int newIndex) meta of
           None \<Rightarrow> None
         | Some meta1 \<Rightarrow>
             Some (meta1,
                   b\<lparr>insertMutations := insertMutations b @
                        [InsertMutation parentView (shadowView newChildPair) (int newIndex)]\<rparr>,
                   TinyMap_insert (tag (shadowView newChildPair), newChildPair) newInsertedPairs)))"

definition eraseIfFound :: "Tag \<Rightarrow> 'v TinyMap \<Rightarrow> 'v TinyMap option" where
  "eraseIfFound t m =
     (case TinyMap_find t m of
        None \<Rightarrow> None
      | Some (it, m1) \<Rightarrow> if it \<noteq> TinyMap_end m1 then TinyMap_erase it m1 else Some m1)"


text \<open>
  The statements of stage 2 between the decision call and the recursive call: Delete,
  Remove and Update of the old pair, as the decision says.
\<close>

definition pushRemoveDelete ::
  "ShadowView \<Rightarrow> ShadowViewNodePair \<Rightarrow> int \<Rightarrow> bool \<times> bool \<times> ShadowNode option \<Rightarrow> Buckets \<Rightarrow> Buckets" where
  "pushRemoveDelete parentView oldChildPair i decision b =
     (case decision of (shouldRemove, shouldDelete, newTreeNode) \<Rightarrow>
        (let b1 = (if shouldDelete
                   then b\<lparr>deleteMutations := deleteMutations b @
                          [DeleteMutation (shadowView oldChildPair)]\<rparr>
                   else b);
             b2 = (if shouldRemove
                   then b1\<lparr>removeMutations := removeMutations b1 @
                          [RemoveMutation parentView (shadowView oldChildPair) i]\<rparr>
                   else b1)
         in case newTreeNode of
              None \<Rightarrow> b2
            | Some n \<Rightarrow> pushUpdate parentView (shadowView oldChildPair) (ShadowView_of n) (-1) b2))"

text \<open>The same statements of stage 3: Insert, Create and Update of the new pair.\<close>

definition pushInsertCreate ::
  "ShadowView \<Rightarrow> ShadowViewNodePair \<Rightarrow> int \<Rightarrow> bool \<times> bool \<times> ShadowNode option \<Rightarrow> Buckets \<Rightarrow> Buckets" where
  "pushInsertCreate parentView newChildPair i decision b =
     (case decision of (shouldInsert, shouldCreate, oldTreeNode) \<Rightarrow>
        (let b1 = (if shouldInsert
                   then b\<lparr>insertMutations := insertMutations b @
                          [InsertMutation parentView (shadowView newChildPair) i]\<rparr>
                   else b);
             b2 = (if shouldCreate
                   then b1\<lparr>createMutations := createMutations b1 @
                          [CreateMutation (shadowView newChildPair)]\<rparr>
                   else b1)
         in case oldTreeNode of
              None \<Rightarrow> b2
            | Some n \<Rightarrow> pushUpdate parentView (ShadowView_of n) (shadowView newChildPair) (-1) b2))"

text \<open>
  Stage 4, an old pair that is not in the new list: Remove whatever the decision, then
  Delete and Update as it says.
\<close>

definition pushRemoved ::
  "ShadowView \<Rightarrow> ShadowViewNodePair \<Rightarrow> int \<Rightarrow> bool \<times> bool \<times> ShadowNode option \<Rightarrow> Buckets \<Rightarrow> Buckets" where
  "pushRemoved parentView oldChildPair oldIndex decision b =
     (case decision of (shouldRemove, shouldDelete, newTreeNode) \<Rightarrow>
        (let b1 = b\<lparr>removeMutations := removeMutations b @
                      [RemoveMutation parentView (shadowView oldChildPair) oldIndex]\<rparr>;
             b2 = (if shouldDelete
                   then b1\<lparr>deleteMutations := deleteMutations b1 @
                          [DeleteMutation (shadowView oldChildPair)]\<rparr>
                   else b1)
         in case newTreeNode of
              None \<Rightarrow> b2
            | Some n \<Rightarrow> pushUpdate parentView (shadowView oldChildPair) (ShadowView_of n) (-1) b2))"

text \<open>The final step: Create and Update of a pair that stayed inserted.\<close>

definition pushCreated ::
  "ShadowView \<Rightarrow> ShadowViewNodePair \<Rightarrow> bool \<times> ShadowNode option \<Rightarrow> Buckets \<Rightarrow> Buckets" where
  "pushCreated parentView newChildPair decision b =
     (case decision of (shouldCreate, updateNode) \<Rightarrow>
        (let b1 = (if shouldCreate
                   then b\<lparr>createMutations := createMutations b @
                          [CreateMutation (shadowView newChildPair)]\<rparr>
                   else b)
         in case updateNode of
              None \<Rightarrow> b1
            | Some n \<Rightarrow> pushUpdate parentView (ShadowView_of n) (shadowView newChildPair) (-1) b1))"

subsection \<open>Termination: the size of the trees still to visit\<close>

fun subtreeSize :: "ShadowNode \<Rightarrow> nat" where
  "subtreeSize (ShadowNode t cn pr ee lm st tr oi children) =
     Suc (sum_list (map subtreeSize children))"

definition pairsBound :: "ShadowViewNodePair list \<Rightarrow> nat" where
  "pairsBound ps = Max (insert 0 ((\<lambda>p. subtreeSize (shadowNode p)) ` set ps))"

definition mapBound :: "ShadowViewNodePair TinyMap \<Rightarrow> nat" where
  "mapBound m = pairsBound (map snd (vector m))"

lemma pairsBound_ge: "p \<in> set ps \<Longrightarrow> subtreeSize (shadowNode p) \<le> pairsBound ps"
  unfolding pairsBound_def by (intro Max_ge) auto

lemma pairsBound_less:
  "(\<And>p. p \<in> set ps \<Longrightarrow> subtreeSize (shadowNode p) < k) \<Longrightarrow> 0 < k \<Longrightarrow> pairsBound ps < k"
  unfolding pairsBound_def by (subst Max_less_iff) auto

lemma pairsBound_le:
  "(\<And>p. p \<in> set ps \<Longrightarrow> subtreeSize (shadowNode p) \<le> k) \<Longrightarrow> pairsBound ps \<le> k"
  unfolding pairsBound_def by (subst Max_le_iff) auto

lemma pairsBound_Nil [simp]: "pairsBound [] = 0"
  by (simp add: pairsBound_def)

lemma pairsBound_mono: "set ps \<subseteq> set qs \<Longrightarrow> pairsBound ps \<le> pairsBound qs"
  by (rule pairsBound_le) (auto intro: pairsBound_ge)

lemma set_reorderInPlaceIfNeeded [simp]: "set (reorderInPlaceIfNeeded ps) = set ps"
  by (simp add: reorderInPlaceIfNeeded_def)

lemma pairsBound_reorder [simp]: "pairsBound (reorderInPlaceIfNeeded ps) = pairsBound ps"
  by (simp add: pairsBound_def)

lemma subtreeSize_pos: "0 < subtreeSize n"
  by (cases n) simp

lemma slice_rec_smaller:
  "p \<in> set (sliceChildShadowNodeViewPairsRecursively android off n acc) \<Longrightarrow>
     p \<in> set acc \<or> subtreeSize (shadowNode p) < subtreeSize n"
  "p \<in> set (sliceChildren android off cs acc) \<Longrightarrow>
     p \<in> set acc \<or> subtreeSize (shadowNode p) \<le> sum_list (map subtreeSize cs)"
proof (induction android off n acc and android off cs acc arbitrary: p and p
       rule: sliceChildShadowNodeViewPairsRecursively_sliceChildren.induct)
  case (1 android layoutOffset t cn pr ee lm st tr oi children pairList)
  then show ?case by fastforce
next
  case (2 android layoutOffset pairList)
  then show ?case by simp
next
  case (3 android layoutOffset childShadowNode rest pairList)
  let ?acc = "(if \<not> android \<and> Hidden \<in> getTraits childShadowNode then pairList
        else
          (let (sv, origin) = offsetView layoutOffset childShadowNode
           in if FormsStackingContext \<in> getTraits childShadowNode
              then pairList @ [ShadowViewNodePair sv childShadowNode]
              else sliceChildShadowNodeViewPairsRecursively android origin childShadowNode
                     (if FormsView \<in> getTraits childShadowNode
                      then pairList @ [ShadowViewNodePair sv childShadowNode]
                      else pairList)))"
  from "3.prems" have "p \<in> set (sliceChildren android layoutOffset rest ?acc)" by simp
  from "3.IH"(2)[OF this]
  have a: "p \<in> set ?acc \<or> subtreeSize (shadowNode p) \<le> sum_list (map subtreeSize rest)" .
  have b: "p \<in> set ?acc \<Longrightarrow>
           p \<in> set pairList \<or> subtreeSize (shadowNode p) \<le> subtreeSize childShadowNode"
  proof (cases "\<not> android \<and> Hidden \<in> getTraits childShadowNode")
    case True
    then show "p \<in> set ?acc \<Longrightarrow> ?thesis" by simp
  next
    case hid: False
    obtain sv origin where ov: "offsetView layoutOffset childShadowNode = (sv, origin)"
      by (cases "offsetView layoutOffset childShadowNode")
    show "p \<in> set ?acc \<Longrightarrow> ?thesis"
    proof (cases "FormsStackingContext \<in> getTraits childShadowNode")
      case True
      then show "p \<in> set ?acc \<Longrightarrow> ?thesis" using hid ov by auto
    next
      case False
      assume "p \<in> set ?acc"
      then have "p \<in> set (sliceChildShadowNodeViewPairsRecursively android origin childShadowNode
                     (if FormsView \<in> getTraits childShadowNode
                      then pairList @ [ShadowViewNodePair sv childShadowNode]
                      else pairList))"
        using hid ov False by simp
      from "3.IH"(1)[OF hid ov[symmetric] refl False this]
      show ?thesis by (auto split: if_splits)
    qed
  qed
  from a b show ?case by auto
qed

lemma slice_smaller:
  "p \<in> set (sliceChildShadowNodeViewPairs android n) \<Longrightarrow> subtreeSize (shadowNode p) < subtreeSize n"
  using slice_rec_smaller(1)[of p android "(0, 0)" n "[]"]
  by (auto simp: sliceChildShadowNodeViewPairs_def split: if_splits)

lemma pairsBound_slice: "pairsBound (sliceChildShadowNodeViewPairs android n) < subtreeSize n"
  by (rule pairsBound_less) (auto intro: slice_smaller subtreeSize_pos)

lemma pairsBound_slice_nth:
  "i < length ps \<Longrightarrow>
   pairsBound (sliceChildShadowNodeViewPairs android (shadowNode (ps ! i))) < pairsBound ps"
  using pairsBound_slice[of android "shadowNode (ps ! i)"] pairsBound_ge[of "ps ! i" ps]
  by simp

lemma mapBound_cleanVector: "mapBound (cleanVector f m) \<le> mapBound m"
  unfolding mapBound_def by (rule pairsBound_mono) (auto simp: cleanVector_def)

lemma mapBound_find: "TinyMap_find k m = Some (it, m') \<Longrightarrow> mapBound m' \<le> mapBound m"
  using mapBound_cleanVector[of False m]
  by (auto simp: TinyMap_find_def Let_def split: if_splits option.splits)

lemma mapBound_begin: "TinyMap_begin m = (it, m') \<Longrightarrow> mapBound m' \<le> mapBound m"
  using mapBound_cleanVector[of "erasedAtFront m \<noteq> numErased m" m]
  by (auto simp: TinyMap_begin_def Let_def split: option.splits)

lemma map_snd_erase: "map snd (v[i := (k, snd (v ! i))]) = map snd v"
  by (cases "i < length v") (auto simp: nth_list_update intro!: nth_equalityI)

lemma mapBound_erase: "TinyMap_erase it m = Some m' \<Longrightarrow> mapBound m' = mapBound m"
  by (auto simp: TinyMap_erase_def Let_def mapBound_def map_snd_erase
      split: option.splits if_splits)

lemma mapBound_deref:
  "TinyMap_deref it m = Some (k, p) \<Longrightarrow> subtreeSize (shadowNode p) \<le> mapBound m"
proof -
  assume "TinyMap_deref it m = Some (k, p)"
  then obtain i where "i < length (vector m)" "vector m ! i = (k, p)"
    by (auto simp: TinyMap_deref_def split: option.splits if_splits)
  then have "(k, p) \<in> set (vector m)"
    using nth_mem[of i "vector m"] by simp
  then have "p \<in> set (map snd (vector m))" by force
  then show ?thesis unfolding mapBound_def by (rule pairsBound_ge)
qed

lemma mapBound_insert:
  "mapBound (TinyMap_insert (k, p) m) \<le> max (subtreeSize (shadowNode p)) (mapBound m)"
  unfolding mapBound_def
proof (rule pairsBound_le)
  fix q
  assume "q \<in> set (map snd (vector (TinyMap_insert (k, p) m)))"
  then have "q = p \<or> q \<in> set (map snd (vector m))"
    by (auto simp: TinyMap_insert_def)
  then show "subtreeSize (shadowNode q)
             \<le> max (subtreeSize (shadowNode p)) (pairsBound (map snd (vector m)))"
    using pairsBound_ge[of q "map snd (vector m)"] by (auto simp: le_max_iff_disj)
qed

lemma mapBound_insertNew:
  assumes "insertNew meta pv new ni b ins = Some (meta', b', ins')"
  shows "ni < length new \<and> mapBound ins' \<le> max (pairsBound new) (mapBound ins)"
proof -
  from assms have ni: "ni < length new"
    and ins': "ins' = TinyMap_insert (tag (shadowView (new ! ni)), new ! ni) ins"
    by (auto simp: insertNew_def Let_def split: if_splits option.splits)
  have "subtreeSize (shadowNode (new ! ni)) \<le> pairsBound new"
    using ni by (intro pairsBound_ge) simp
  then show ?thesis
    using mapBound_insert[of "tag (shadowView (new ! ni))" "new ! ni" ins] ins' ni by simp
qed

lemma mapBound_empty [simp]: "mapBound TinyMap_empty = 0"
  by (simp add: mapBound_def TinyMap_empty_def)

lemma mapBound_deref_slice:
  "TinyMap_deref it m = Some (k, p) \<Longrightarrow>
   pairsBound (sliceChildShadowNodeViewPairs android (shadowNode p)) < mapBound m"
  using mapBound_deref[of it m k p] pairsBound_slice[of android "shadowNode p"] by simp

lemma TinyMap_deref_Some:
  "TinyMap_deref it m = Some x \<Longrightarrow> \<exists>i. it = Some i \<and> i < length (vector m)"
  by (auto simp: TinyMap_deref_def split: option.splits if_splits)

declare Option.bind_cong [fundef_cong]

function
  diff :: "bool \<Rightarrow> ReparentingMetadata \<Rightarrow> ShadowView \<Rightarrow> ShadowViewNodePair list \<Rightarrow>
     ShadowViewNodePair list \<Rightarrow> (ShadowViewMutation list \<times> ReparentingMetadata) option"
and stage1 :: "bool \<Rightarrow> ReparentingMetadata \<Rightarrow> ShadowView \<Rightarrow> ShadowViewNodePair list \<Rightarrow>
     ShadowViewNodePair list \<Rightarrow> nat \<Rightarrow> Buckets \<Rightarrow> (nat \<times> Buckets \<times> ReparentingMetadata) option"
and removeRest :: "bool \<Rightarrow> ReparentingMetadata \<Rightarrow> ShadowView \<Rightarrow> ShadowViewNodePair list \<Rightarrow>
     nat \<Rightarrow> Buckets \<Rightarrow> (Buckets \<times> ReparentingMetadata) option"
and createRest :: "bool \<Rightarrow> ReparentingMetadata \<Rightarrow> ShadowView \<Rightarrow> ShadowViewNodePair list \<Rightarrow>
     nat \<Rightarrow> Buckets \<Rightarrow> (Buckets \<times> ReparentingMetadata) option"
and walk :: "bool \<Rightarrow> ReparentingMetadata \<Rightarrow> ShadowView \<Rightarrow> ShadowViewNodePair list \<Rightarrow>
     ShadowViewNodePair list \<Rightarrow> nat \<Rightarrow> ShadowViewNodePair TinyMap \<Rightarrow> ShadowViewNodePair TinyMap \<Rightarrow>
     nat \<Rightarrow> nat \<Rightarrow> Buckets \<Rightarrow> (Buckets \<times> ReparentingMetadata) option"
and createInserted :: "bool \<Rightarrow> ReparentingMetadata \<Rightarrow> ShadowView \<Rightarrow> ShadowViewNodePair TinyMap \<Rightarrow>
     Iterator \<Rightarrow> Buckets \<Rightarrow> (Buckets \<times> ReparentingMetadata) option"
where
  "diff android meta parentView oldChildPairs0 newChildPairs0 =
     (if oldChildPairs0 = [] \<and> newChildPairs0 = [] then Some ([], meta)
      else
        (let oldChildPairs = reorderInPlaceIfNeeded oldChildPairs0;
             newChildPairs = reorderInPlaceIfNeeded newChildPairs0
         in
           (case stage1 android meta parentView oldChildPairs newChildPairs 0 Buckets_empty of
              None \<Rightarrow> None
            | Some (idx, b1, meta1) \<Rightarrow>
                (case (if idx = length newChildPairs
                       then removeRest android meta1 parentView oldChildPairs idx b1
                       else if idx = length oldChildPairs
                       then createRest android meta1 parentView newChildPairs idx b1
                       else
                         (let (newRemainingPairs, idx') = fillRemaining newChildPairs idx TinyMap_empty
                          in walk android meta1 parentView oldChildPairs newChildPairs idx'
                               newRemainingPairs TinyMap_empty idx idx b1)) of
                   None \<Rightarrow> None
                 | Some (b2, meta2) \<Rightarrow> Some (allMutations b2, meta2)))))"
| "stage1 android meta parentView oldChildPairs newChildPairs idx b =
     (if idx < length oldChildPairs \<and> idx < length newChildPairs
      then
        (let oldChildPair = oldChildPairs ! idx;
             newChildPair = newChildPairs ! idx
         in
           if tag (shadowView oldChildPair) \<noteq> tag (shadowView newChildPair)
           then Some (idx, b, meta)
           else
             (let b1 = pushUpdate parentView (shadowView oldChildPair) (shadowView newChildPair) (int idx) b;
                  oldGrandChildPairs = sliceChildShadowNodeViewPairs android (shadowNode oldChildPair);
                  newGrandChildPairs = sliceChildShadowNodeViewPairs android (shadowNode newChildPair)
              in
                (case diff android meta (shadowView oldChildPair) oldGrandChildPairs newGrandChildPairs of
                   None \<Rightarrow> None
                 | Some (ms, meta1) \<Rightarrow>
                     stage1 android meta1 parentView oldChildPairs newChildPairs (Suc idx)
                       (pushDown newGrandChildPairs ms b1))))
      else Some (idx, b, meta))"
| "removeRest android meta parentView oldChildPairs idx b =
     (if idx < length oldChildPairs
      then
        (let oldChildPair = oldChildPairs ! idx;
             (decision, meta1) =
               shouldRemoveDeleteUpdate (tag parentView) (shadowNode oldChildPair) (int idx) meta;
             b1 = pushRemoveDelete parentView oldChildPair (int idx) decision b
         in
           (case diff android meta1 (shadowView oldChildPair)
                   (sliceChildShadowNodeViewPairs android (shadowNode oldChildPair)) [] of
              None \<Rightarrow> None
            | Some (ms, meta2) \<Rightarrow>
                removeRest android meta2 parentView oldChildPairs (Suc idx)
                  (b1\<lparr>destructiveDownwardMutations := destructiveDownwardMutations b1 @ ms\<rparr>)))
      else Some (b, meta))"
| "createRest android meta parentView newChildPairs idx b =
     (if idx < length newChildPairs
      then
        (let newChildPair = newChildPairs ! idx;
             (decision, meta1) =
               shouldCreateInsertUpdate (tag parentView) (shadowNode newChildPair) (int idx) meta;
             b1 = pushInsertCreate parentView newChildPair (int idx) decision b
         in
           (case diff android meta1 (shadowView newChildPair) []
                   (sliceChildShadowNodeViewPairs android (shadowNode newChildPair)) of
              None \<Rightarrow> None
            | Some (ms, meta2) \<Rightarrow>
                createRest android meta2 parentView newChildPairs (Suc idx)
                  (b1\<lparr>downwardMutations := downwardMutations b1 @ ms\<rparr>)))
      else Some (b, meta))"
| "walk android meta parentView oldChildPairs newChildPairs idx newRemainingPairs newInsertedPairs
       oldIndex newIndex b =
     (if newIndex < length newChildPairs \<or> oldIndex < length oldChildPairs
      then
        (let haveNewPair = (newIndex < length newChildPairs);
             haveOldPair = (oldIndex < length oldChildPairs)
         in
           if haveNewPair \<and> haveOldPair \<and>
              tag (shadowView (newChildPairs ! newIndex)) = tag (shadowView (oldChildPairs ! oldIndex))
           then
             (let newChildPair = newChildPairs ! newIndex;
                  oldChildPair = oldChildPairs ! oldIndex;
                  b1 = pushUpdate parentView (shadowView oldChildPair) (shadowView newChildPair) (int idx) b
              in
                (case eraseIfFound (tag (shadowView oldChildPair)) newRemainingPairs of
                   None \<Rightarrow> None
                 | Some newRemainingPairs1 \<Rightarrow>
                     (let oldGrandChildPairs = sliceChildShadowNodeViewPairs android (shadowNode oldChildPair);
                          newGrandChildPairs = sliceChildShadowNodeViewPairs android (shadowNode newChildPair)
                      in
                        (case diff android meta (shadowView oldChildPair) oldGrandChildPairs newGrandChildPairs of
                           None \<Rightarrow> None
                         | Some (ms, meta1) \<Rightarrow>
                             walk android meta1 parentView oldChildPairs newChildPairs idx
                               newRemainingPairs1 newInsertedPairs (Suc oldIndex) (Suc newIndex)
                               (pushDown newGrandChildPairs ms b1)))))
           else if haveOldPair
           then
             (let oldChildPair = oldChildPairs ! oldIndex;
                  oldTag = tag (shadowView oldChildPair)
              in
                (case TinyMap_find oldTag newInsertedPairs of
                   None \<Rightarrow> None
                 | Some (insertedIt, newInsertedPairs1) \<Rightarrow>
                     if insertedIt \<noteq> TinyMap_end newInsertedPairs1
                     then
                       (case TinyMap_deref insertedIt newInsertedPairs1 of
                          None \<Rightarrow> None
                        | Some (k, newChildPair) \<Rightarrow>
                            (let b1 = b\<lparr>removeMutations := removeMutations b @
                                        [RemoveMutation parentView (shadowView oldChildPair) (int oldIndex)]\<rparr>;
                                 b2 = pushUpdate parentView (shadowView oldChildPair)
                                        (shadowView newChildPair) (int idx) b1;
                                 oldGrandChildPairs =
                                   sliceChildShadowNodeViewPairs android (shadowNode oldChildPair);
                                 newGrandChildPairs =
                                   sliceChildShadowNodeViewPairs android (shadowNode newChildPair)
                             in
                               (case diff android meta (shadowView oldChildPair)
                                       oldGrandChildPairs newGrandChildPairs of
                                  None \<Rightarrow> None
                                | Some (ms, meta1) \<Rightarrow>
                                    (case TinyMap_erase insertedIt newInsertedPairs1 of
                                       None \<Rightarrow> None
                                     | Some newInsertedPairs2 \<Rightarrow>
                                         walk android meta1 parentView oldChildPairs newChildPairs idx
                                           newRemainingPairs newInsertedPairs2 (Suc oldIndex) newIndex
                                           (pushDown newGrandChildPairs ms b2)))))
                     else
                       (case TinyMap_find oldTag newRemainingPairs of
                          None \<Rightarrow> None
                        | Some (newIt, newRemainingPairs1) \<Rightarrow>
                            if newIt = TinyMap_end newRemainingPairs1
                            then
                              (let (decision, meta1) =
                                     shouldRemoveDeleteUpdate (-1) (shadowNode oldChildPair) (-1) meta;
                                   b1 = pushRemoved parentView oldChildPair (int oldIndex) decision b
                               in
                                 (case diff android meta1 (shadowView oldChildPair)
                                         (sliceChildShadowNodeViewPairs android (shadowNode oldChildPair)) [] of
                                    None \<Rightarrow> None
                                  | Some (ms, meta2) \<Rightarrow>
                                      walk android meta2 parentView oldChildPairs newChildPairs idx
                                        newRemainingPairs1 newInsertedPairs1 (Suc oldIndex) newIndex
                                        (b1\<lparr>destructiveDownwardMutations :=
                                              destructiveDownwardMutations b1 @ ms\<rparr>)))
                            else
                              (case insertNew meta parentView newChildPairs newIndex b newInsertedPairs1 of
                                 None \<Rightarrow> None
                               | Some (meta1, b1, newInsertedPairs2) \<Rightarrow>
                                   walk android meta1 parentView oldChildPairs newChildPairs idx
                                     newRemainingPairs1 newInsertedPairs2 oldIndex (Suc newIndex) b1))))
           else
             (case insertNew meta parentView newChildPairs newIndex b newInsertedPairs of
                None \<Rightarrow> None
              | Some (meta1, b1, newInsertedPairs1) \<Rightarrow>
                  walk android meta1 parentView oldChildPairs newChildPairs idx
                    newRemainingPairs newInsertedPairs1 oldIndex (Suc newIndex) b1))
      else
        (let (it, newInsertedPairs1) = TinyMap_begin newInsertedPairs
         in createInserted android meta parentView newInsertedPairs1 it b))"
| "createInserted android meta parentView newInsertedPairs it b =
     (if it = TinyMap_end newInsertedPairs then Some (b, meta)
      else
        (case TinyMap_deref it newInsertedPairs of
           None \<Rightarrow> None
         | Some (k, newChildPair) \<Rightarrow>
             if k = 0
             then createInserted android meta parentView newInsertedPairs (map_option Suc it) b
             else
               (case shouldCreateUpdate (shadowNode newChildPair) meta of
                  None \<Rightarrow> None
                | Some (decision, meta1) \<Rightarrow>
                    (let b1 = pushCreated parentView newChildPair decision b
                     in
                       (case diff android meta1 (shadowView newChildPair) []
                               (sliceChildShadowNodeViewPairs android (shadowNode newChildPair)) of
                          None \<Rightarrow> None
                        | Some (ms, meta2) \<Rightarrow>
                            createInserted android meta2 parentView newInsertedPairs (map_option Suc it)
                              (b1\<lparr>downwardMutations := downwardMutations b1 @ ms\<rparr>))))))"
  by pat_completeness auto
termination
  apply (relation "inv_image (less_than <*lex*> less_than <*lex*> less_than)
     (case_sum
        (case_sum
           (\<lambda>(android, meta, parentView, old, new). (max (pairsBound old) (pairsBound new), 2::nat, 0::nat))
           (case_sum
              (\<lambda>(android, meta, parentView, old, new, idx, b).
                 (max (pairsBound old) (pairsBound new), 1, length old - idx))
              (\<lambda>(android, meta, parentView, old, idx, b). (pairsBound old, 1, length old - idx))))
        (case_sum
           (\<lambda>(android, meta, parentView, new, idx, b). (pairsBound new, 1, length new - idx))
           (case_sum
              (\<lambda>(android, meta, parentView, old, new, idx, rem, ins, oldIndex, newIndex, b).
                 (max (max (pairsBound old) (pairsBound new)) (mapBound ins), 1,
                  (length new - newIndex) + (length old - oldIndex)))
              (\<lambda>(android, meta, parentView, ins, it, b).
                 (mapBound ins, 0, length (vector ins) - (case it of None \<Rightarrow> 0 | Some i \<Rightarrow> i))))))")
  apply (intro wf_inv_image wf_lex_prod wf_less_than)
  subgoal by simp
  subgoal by (auto simp: max_def)
  subgoal by (auto simp: max_def)
  subgoal by simp
  subgoal for android meta parentView oldChildPairs newChildPairs idx
    using pairsBound_slice_nth[of idx oldChildPairs android]
          pairsBound_slice_nth[of idx newChildPairs android]
    by (auto simp: max_def)
  subgoal by auto
  subgoal for android meta parentView oldChildPairs idx
    using pairsBound_slice_nth[of idx oldChildPairs android] by auto
  subgoal by auto
  subgoal for android meta parentView newChildPairs idx
    using pairsBound_slice_nth[of idx newChildPairs android] by auto
  subgoal by auto
  subgoal for android meta parentView oldChildPairs newChildPairs idx newRemainingPairs
      newInsertedPairs oldIndex newIndex
    using pairsBound_slice_nth[of oldIndex oldChildPairs android]
          pairsBound_slice_nth[of newIndex newChildPairs android]
    by (auto simp: max_def)
  subgoal by auto
  subgoal for android meta parentView oldChildPairs newChildPairs idx newRemainingPairs
      newInsertedPairs oldIndex newIndex
    using pairsBound_slice_nth[of oldIndex oldChildPairs android]
    by (auto simp: max_def dest!: mapBound_find mapBound_deref_slice[where android=android])
  subgoal by (auto simp: max_def dest!: mapBound_find mapBound_erase)
  subgoal for android meta parentView oldChildPairs newChildPairs idx newRemainingPairs
      newInsertedPairs oldIndex newIndex
    using pairsBound_slice_nth[of oldIndex oldChildPairs android]
    by (auto simp: max_def)
  subgoal by (auto simp: max_def dest!: mapBound_find)
  subgoal by (auto simp: max_def dest!: mapBound_find mapBound_insertNew split: if_splits)
  subgoal by (auto simp: max_def dest!: mapBound_insertNew split: if_splits)
  subgoal by (auto simp: max_def dest!: mapBound_begin[OF sym])
  subgoal by (auto dest!: TinyMap_deref_Some)
  subgoal for android
    by (auto dest!: mapBound_deref_slice[where android=android])
  subgoal by (auto dest!: TinyMap_deref_Some)
  done

declare diff.simps [simp del] stage1.simps [simp del] removeRest.simps [simp del]
  createRest.simps [simp del] walk.simps [simp del] createInserted.simps [simp del]

text \<open>
  The predicate of \<^verbatim>\<open>std::remove_if\<close> in the pruning pass, applied to the mutations
  in order; it updates the metadata as it goes.
\<close>

fun eraseObviated :: "ReparentingMetadata \<Rightarrow> ShadowViewMutation list \<Rightarrow> ShadowViewMutation list" where
  "eraseObviated meta [] = []"
| "eraseObviated meta (mutation # rest) =
     (if reparentingOperations meta = 0 then mutation # eraseObviated meta rest
      else
        (let ty = type mutation;
             t = (if ty = Insert \<or> ty = Create then tag (newChildShadowView mutation)
                  else tag (oldChildShadowView mutation))
         in case tagsToOperations meta t of
              None \<Rightarrow> mutation # eraseObviated meta rest
            | Some ops \<Rightarrow>
                (let shouldDelete = (shouldEraseOp ops AND typeBit ty \<noteq> 0);
                     ops1 = ops\<lparr>shouldEraseOp := shouldEraseOp ops AND NOT (typeBit ty)\<rparr>;
                     meta1 = (if shouldEraseOp ops1 = 0
                              then meta\<lparr>tagsToOperations := (tagsToOperations meta)(t := None),
                                        reparentingOperations := reparentingOperations meta - 1\<rparr>
                              else meta\<lparr>tagsToOperations := (tagsToOperations meta)(t \<mapsto> ops1)\<rparr>)
                 in if shouldDelete then eraseObviated meta1 rest
                    else mutation # eraseObviated meta1 rest)))"

text \<open>The public entry point.\<close>

definition calculateShadowViewMutations ::
  "bool \<Rightarrow> ShadowNode \<Rightarrow> ShadowNode \<Rightarrow> bool \<Rightarrow> ShadowViewMutation list option" where
  "calculateShadowViewMutations android oldRootShadowNode newRootShadowNode enableReparentingDetection =
     (let reparentingMetadata = ReparentingMetadata_init enableReparentingDetection;
          oldRootShadowView = ShadowView_of oldRootShadowNode;
          newRootShadowView = ShadowView_of newRootShadowNode;
          mutations0 = (if oldRootShadowView \<noteq> newRootShadowView
                        then [UpdateMutation ShadowView_default oldRootShadowView newRootShadowView (-1)]
                        else [])
      in case diff android reparentingMetadata (ShadowView_of oldRootShadowNode)
                (sliceChildShadowNodeViewPairs android oldRootShadowNode)
                (sliceChildShadowNodeViewPairs android newRootShadowNode) of
           None \<Rightarrow> None
         | Some (ms, meta) \<Rightarrow>
             (let mutations = mutations0 @ ms
              in if reparentingOperations meta > 0 \<and> enableReparentingDetection
                 then Some (eraseObviated (removeUselessRecords meta) mutations)
                 else Some mutations))"


section \<open>TinyMap: invariant and compaction\<close>

definition isErased :: "Tag \<times> 'v \<Rightarrow> bool" where
  "isErased item = (fst item = 0)"

definition TinyMap_inv :: "'v TinyMap \<Rightarrow> bool" where
  "TinyMap_inv m =
     (erasedAtFront m \<le> numErased m \<and> numErased m \<le> length (vector m) \<and>
      length (filter isErased (vector m)) = numErased m \<and>
      list_all isErased (take (erasedAtFront m) (vector m)))"

text \<open>
  The states that the public operations produce from the empty map, when \<open>insert\<close> is
  given non-zero keys and \<open>erase\<close> a live iterator (the address of an entry whose key is
  not zero, as \<open>find\<close> returns for a non-zero key). \<^verbatim>\<open>end()\<close> reads the map only.
\<close>

inductive TinyMap_reachable :: "'v TinyMap \<Rightarrow> bool" where
  reach_empty: "TinyMap_reachable TinyMap_empty"
| reach_insert: "TinyMap_reachable m \<Longrightarrow> key \<noteq> 0 \<Longrightarrow> TinyMap_reachable (TinyMap_insert (key, v) m)"
| reach_find: "TinyMap_reachable m \<Longrightarrow> TinyMap_find key m = Some (it, m') \<Longrightarrow> TinyMap_reachable m'"
| reach_erase: "TinyMap_reachable m \<Longrightarrow> i < length (vector m) \<Longrightarrow> fst (vector m ! i) \<noteq> 0 \<Longrightarrow>
     TinyMap_erase (Some i) m = Some m' \<Longrightarrow> TinyMap_reachable m'"
| reach_begin: "TinyMap_reachable m \<Longrightarrow> TinyMap_begin m = (it, m') \<Longrightarrow> TinyMap_reachable m'"

lemma inv_empty: "TinyMap_inv TinyMap_empty"
  by (simp add: TinyMap_inv_def TinyMap_empty_def)

lemma inv_insert: "TinyMap_inv m \<Longrightarrow> key \<noteq> 0 \<Longrightarrow> TinyMap_inv (TinyMap_insert (key, v) m)"
  by (auto simp: TinyMap_inv_def TinyMap_insert_def isErased_def)

lemma inv_cleanVector: "TinyMap_inv m \<Longrightarrow> TinyMap_inv (cleanVector force m)"
  by (auto simp: TinyMap_inv_def cleanVector_def isErased_def)

lemma inv_find: "TinyMap_inv m \<Longrightarrow> TinyMap_find key m = Some (it, m') \<Longrightarrow> TinyMap_inv m'"
  using inv_cleanVector[of m False]
  by (auto simp: TinyMap_find_def Let_def split: if_splits option.splits)

lemma inv_begin: "TinyMap_inv m \<Longrightarrow> TinyMap_begin m = (it, m') \<Longrightarrow> TinyMap_inv m'"
  using inv_cleanVector[of m "erasedAtFront m \<noteq> numErased m"]
  by (auto simp: TinyMap_begin_def Let_def split: option.splits)

lemma count_erased_update:
  assumes "i < length v" "\<not> isErased (v ! i)" "isErased y"
  shows "length (filter isErased (v[i := y])) = Suc (length (filter isErased v))"
proof -
  have v: "v = take i v @ v ! i # drop (Suc i) v"
    using assms(1) by (simp add: id_take_nth_drop)
  have u: "v[i := y] = take i v @ y # drop (Suc i) v"
    using assms(1) by (simp add: upd_conv_take_nth_drop)
  have "length (filter isErased v) =
        length (filter isErased (take i v)) + length (filter isErased (drop (Suc i) v))"
    by (subst v) (simp add: assms(2))
  moreover have "length (filter isErased (v[i := y])) =
        Suc (length (filter isErased (take i v)) + length (filter isErased (drop (Suc i) v)))"
    by (subst u) (simp add: assms(3))
  ultimately show ?thesis by simp
qed

lemma front_erased_update:
  "list_all isErased (take n v) \<Longrightarrow> isErased y \<Longrightarrow> list_all isErased (take n (v[i := y]))"
  by (auto simp: list_all_iff take_update_swap dest: set_update_subset_insert[THEN subsetD])

lemma front_erased_Suc:
  "list_all isErased (take n v) \<Longrightarrow> isErased y \<Longrightarrow> n < length v \<Longrightarrow>
   list_all isErased (take (Suc n) (v[n := y]))"
  by (simp add: take_Suc_conv_app_nth)

lemma inv_erase:
  assumes inv: "TinyMap_inv m" and i: "i < length (vector m)" and live: "fst (vector m ! i) \<noteq> 0"
    and er: "TinyMap_erase (Some i) m = Some m'"
  shows "TinyMap_inv m'"
proof -
  let ?v = "(vector m)[i := (0, snd (vector m ! i))]"
  have z: "isErased (0, snd (vector m ! i))" by (simp add: isErased_def)
  have cnt: "length (filter isErased ?v) = Suc (numErased m)"
    using count_erased_update[OF i _ z] live inv by (simp add: isErased_def TinyMap_inv_def)
  have le: "Suc (numErased m) \<le> length (vector m)"
    using cnt length_filter_le[of isErased ?v] by simp
  have front: "list_all isErased (take (erasedAtFront m) ?v)"
    using front_erased_update[OF _ z] inv by (simp add: TinyMap_inv_def)
  have frontS: "i = erasedAtFront m \<Longrightarrow> list_all isErased (take (Suc (erasedAtFront m)) ?v)"
    using front_erased_Suc[OF _ z, of "erasedAtFront m" "vector m"] inv i
    by (simp add: TinyMap_inv_def)
  from er i have "m' = m\<lparr>vector := ?v, numErased := Suc (numErased m)\<rparr> \<or>
     (i = erasedAtFront m \<and>
      m' = m\<lparr>vector := ?v, erasedAtFront := Suc (erasedAtFront m), numErased := Suc (numErased m)\<rparr>)"
    by (auto simp: TinyMap_erase_def Let_def TinyMap_begin'_def split: if_splits)
  then show ?thesis
    using cnt le front frontS inv by (auto simp: TinyMap_inv_def)
qed

text \<open>An iterator that \<open>find\<close> returns for a non-zero key is \<^verbatim>\<open>end()\<close> or live.\<close>

lemma find_loop_result:
  "find_loop key v i = Some j \<Longrightarrow> i \<le> length v \<and> i \<le> j \<and> (j = length v \<or> (j < length v \<and> fst (v ! j) = key))"
proof (induction key v i rule: find_loop.induct)
  case (1 key v it)
  show ?case
  proof (cases "it < length v \<and> fst (v ! it) \<noteq> key")
    case True
    with "1.prems" have "find_loop key v (Suc it) = Some j"
      by (subst (asm) find_loop.simps) auto
    with "1.IH" True show ?thesis by auto
  next
    case False
    with "1.prems" show ?thesis
      by (subst (asm) find_loop.simps) (auto split: if_splits)
  qed
qed

lemma find_loop_defined: "i \<le> length v \<Longrightarrow> \<exists>j. find_loop key v i = Some j"
proof (induction key v i rule: find_loop.induct)
  case (1 key v it)
  then show ?case by (subst find_loop.simps) auto
qed

lemma find_state: "TinyMap_find key m = Some (it, m') \<Longrightarrow> m' = cleanVector False m"
  by (auto simp: TinyMap_find_def Let_def split: if_splits option.splits)

lemma find_live:
  assumes f: "TinyMap_find key m = Some (it, m')" and "key \<noteq> 0" and ne: "it \<noteq> TinyMap_end m'"
  shows "\<exists>i. it = Some i \<and> i < length (vector m') \<and> fst (vector m' ! i) = key"
proof -
  have m': "m' = cleanVector False m" using f by (rule find_state)
  have b: "TinyMap_begin' m' \<noteq> None"
    using f ne m' by (auto simp: TinyMap_find_def Let_def split: if_splits)
  then obtain j where j: "find_loop key (vector m') (erasedAtFront m') = Some j" and it: "it = Some j"
    using f m' by (auto simp: TinyMap_find_def Let_def split: if_splits option.splits)
  have "TinyMap_end m' = Some (length (vector m'))"
    using b by (auto simp: TinyMap_begin'_def TinyMap_end_def split: if_splits)
  then have "j \<noteq> length (vector m')" using ne it by simp
  then show ?thesis using find_loop_result[OF j] it by auto
qed

subsection \<open>Compaction\<close>

lemma count_live:
  "length (filter (\<lambda>item. fst item \<noteq> 0) v) + length (filter isErased v) = length v"
  using sum_length_filter_compl[of isErased v] by (simp add: isErased_def[abs_def] add.commute)

lemma all_erased:
  "length (filter isErased v) = length v \<Longrightarrow> filter (\<lambda>item. fst item \<noteq> 0) v = []"
  using count_live[of v] by simp

lemma cleanVector_compacts:
  assumes "TinyMap_inv m"
  shows "(length (vector (cleanVector force m)) < length (vector m)) =
           ((length (vector m) div 2 \<le> numErased m \<or> force) \<and> numErased m \<noteq> erasedAtFront m)"
    and "length (vector (cleanVector force m)) < length (vector m) \<Longrightarrow>
           vector (cleanVector force m) = filter (\<lambda>item. fst item \<noteq> 0) (vector m) \<and>
           numErased (cleanVector force m) = 0 \<and> erasedAtFront (cleanVector force m) = 0"
    and "\<not> length (vector (cleanVector force m)) < length (vector m) \<Longrightarrow> cleanVector force m = m"
proof -
  have cl: "length (filter (\<lambda>item. fst item \<noteq> 0) (vector m)) + numErased m = length (vector m)"
    using count_live[of "vector m"] assms by (simp add: TinyMap_inv_def)
  have ae: "numErased m = length (vector m) \<Longrightarrow> filter (\<lambda>item. fst item \<noteq> 0) (vector m) = []"
    using all_erased[of "vector m"] assms by (simp add: TinyMap_inv_def)
  have le: "erasedAtFront m \<le> numErased m" "numErased m \<le> length (vector m)"
    using assms by (simp_all add: TinyMap_inv_def)
  show "(length (vector (cleanVector force m)) < length (vector m)) =
           ((length (vector m) div 2 \<le> numErased m \<or> force) \<and> numErased m \<noteq> erasedAtFront m)"
    using cl le by (auto simp: cleanVector_def)
  show "length (vector (cleanVector force m)) < length (vector m) \<Longrightarrow>
           vector (cleanVector force m) = filter (\<lambda>item. fst item \<noteq> 0) (vector m) \<and>
           numErased (cleanVector force m) = 0 \<and> erasedAtFront (cleanVector force m) = 0"
    using ae by (auto simp: cleanVector_def split: if_splits)
  show "\<not> length (vector (cleanVector force m)) < length (vector m) \<Longrightarrow> cleanVector force m = m"
    using cl le by (auto simp: cleanVector_def split: if_splits)
qed

lemma begin_state:
  "TinyMap_begin m = (it, m') \<Longrightarrow> m' = cleanVector (erasedAtFront m \<noteq> numErased m) m"
  by (auto simp: TinyMap_begin_def Let_def split: option.splits)

definition compacted :: "'v TinyMap \<Rightarrow> 'v TinyMap \<Rightarrow> bool" where
  "compacted m m' = (length (vector m') < length (vector m))"


section \<open>One activation of the recursive function\<close>

text \<open>
  The seven lists of one activation of the recursive \<open>calculateShadowViewMutations\<close>
  (here \<open>diff\<close>), as they are when the function reaches its last statements. On the
  early return for two empty lists nothing is appended: the lists are empty.
\<close>

definition activationBuckets ::
  "bool \<Rightarrow> ReparentingMetadata \<Rightarrow> ShadowView \<Rightarrow> ShadowViewNodePair list \<Rightarrow>
   ShadowViewNodePair list \<Rightarrow> (Buckets \<times> ReparentingMetadata) option" where
  "activationBuckets android meta parentView oldChildPairs0 newChildPairs0 =
     (if oldChildPairs0 = [] \<and> newChildPairs0 = [] then Some (Buckets_empty, meta)
      else
        (let oldChildPairs = reorderInPlaceIfNeeded oldChildPairs0;
             newChildPairs = reorderInPlaceIfNeeded newChildPairs0
         in
           (case stage1 android meta parentView oldChildPairs newChildPairs 0 Buckets_empty of
              None \<Rightarrow> None
            | Some (idx, b1, meta1) \<Rightarrow>
                if idx = length newChildPairs
                then removeRest android meta1 parentView oldChildPairs idx b1
                else if idx = length oldChildPairs
                then createRest android meta1 parentView newChildPairs idx b1
                else
                  (let (newRemainingPairs, idx') = fillRemaining newChildPairs idx TinyMap_empty
                   in walk android meta1 parentView oldChildPairs newChildPairs idx'
                        newRemainingPairs TinyMap_empty idx idx b1))))"

lemma allMutations_empty [simp]: "allMutations Buckets_empty = []"
  by (simp add: allMutations_def Buckets_empty_def)

lemma diff_activationBuckets:
  "diff android meta pv old new =
     map_option (\<lambda>(b, meta'). (allMutations b, meta')) (activationBuckets android meta pv old new)"
  by (subst diff.simps)
     (simp add: activationBuckets_def Let_def split: option.splits prod.splits)

definition bucketsTyped :: "Buckets \<Rightarrow> bool" where
  "bucketsTyped b =
     (list_all (\<lambda>m. type m = Update) (updateMutations b) \<and>
      list_all (\<lambda>m. type m = Remove) (removeMutations b) \<and>
      list_all (\<lambda>m. type m = Delete) (deleteMutations b) \<and>
      list_all (\<lambda>m. type m = Create) (createMutations b) \<and>
      list_all (\<lambda>m. type m = Insert) (insertMutations b))"

definition removesAscending :: "ShadowView \<Rightarrow> int \<Rightarrow> Buckets \<Rightarrow> bool" where
  "removesAscending pv n b =
     (list_all (\<lambda>m. parentShadowView m = pv \<and> index m < n) (removeMutations b) \<and>
      sorted_wrt (<) (map index (removeMutations b)))"

definition levelInv :: "ShadowView \<Rightarrow> int \<Rightarrow> Buckets \<Rightarrow> bool" where
  "levelInv pv n b = (bucketsTyped b \<and> removesAscending pv n b)"

lemma mutation_type [simp]:
  "type (CreateMutation v) = Create" "type (DeleteMutation v) = Delete"
  "type (InsertMutation pv v i) = Insert" "type (RemoveMutation pv v i) = Remove"
  "type (UpdateMutation pv v w i) = Update"
  by (simp_all add: CreateMutation_def DeleteMutation_def InsertMutation_def RemoveMutation_def
      UpdateMutation_def aggregate_def)

lemma RemoveMutation_fields [simp]:
  "parentShadowView (RemoveMutation pv v i) = pv" "index (RemoveMutation pv v i) = i"
  by (simp_all add: RemoveMutation_def aggregate_def)

lemma levelInv_empty [simp]: "levelInv pv n Buckets_empty"
  by (simp add: levelInv_def bucketsTyped_def removesAscending_def Buckets_empty_def)

lemma levelInv_pushUpdate [simp]: "levelInv pv n (pushUpdate p v w i b) = levelInv pv n b"
  by (simp add: levelInv_def bucketsTyped_def removesAscending_def pushUpdate_def)

lemma levelInv_pushDown [simp]: "levelInv pv n (pushDown g ms b) = levelInv pv n b"
  by (simp add: levelInv_def bucketsTyped_def removesAscending_def pushDown_def)

lemma levelInv_downward [simp]:
  "levelInv pv n (b\<lparr>downwardMutations := x\<rparr>) = levelInv pv n b"
  "levelInv pv n (b\<lparr>destructiveDownwardMutations := y\<rparr>) = levelInv pv n b"
  by (simp_all add: levelInv_def bucketsTyped_def removesAscending_def)

lemma levelInv_push [simp]:
  "levelInv pv n (b\<lparr>deleteMutations := deleteMutations b @ [DeleteMutation v]\<rparr>) = levelInv pv n b"
  "levelInv pv n (b\<lparr>createMutations := createMutations b @ [CreateMutation v]\<rparr>) = levelInv pv n b"
  "levelInv pv n (b\<lparr>insertMutations := insertMutations b @ [InsertMutation p v i]\<rparr>) = levelInv pv n b"
  by (simp_all add: levelInv_def bucketsTyped_def removesAscending_def)

lemma levelInv_remove:
  "levelInv pv (int i) b \<Longrightarrow>
   levelInv pv (int (Suc i)) (b\<lparr>removeMutations := removeMutations b @ [RemoveMutation pv v (int i)]\<rparr>)"
  by (auto simp: levelInv_def bucketsTyped_def removesAscending_def sorted_wrt_append list_all_iff)

lemma levelInv_mono: "levelInv pv n b \<Longrightarrow> n \<le> n' \<Longrightarrow> levelInv pv n' b"
  by (auto simp: levelInv_def removesAscending_def list_all_iff)

lemmas levelInv_defs = levelInv_def bucketsTyped_def removesAscending_def pushUpdate_def
  sorted_wrt_append list_all_iff Let_def

lemma levelInv_pushRemoveDelete:
  "levelInv pv (int i) b \<Longrightarrow> levelInv pv (int (Suc i)) (pushRemoveDelete pv p (int i) d b)"
  by (auto simp: pushRemoveDelete_def levelInv_defs split: prod.splits option.splits)

lemma levelInv_pushRemoved:
  "levelInv pv (int i) b \<Longrightarrow> levelInv pv (int (Suc i)) (pushRemoved pv p (int i) d b)"
  by (auto simp: pushRemoved_def levelInv_defs split: prod.splits option.splits)

lemma levelInv_pushInsertCreate [simp]:
  "levelInv pv n (pushInsertCreate pv' p i d b) = levelInv pv n b"
  by (auto simp: pushInsertCreate_def levelInv_defs split: prod.splits option.splits)

lemma levelInv_pushCreated [simp]:
  "levelInv pv n (pushCreated pv' p d b) = levelInv pv n b"
  by (auto simp: pushCreated_def levelInv_defs split: prod.splits option.splits)

lemma levelInv_insertNew:
  "insertNew meta pv new ni b ins = Some (meta1, b1, ins1) \<Longrightarrow> levelInv pv' n b1 = levelInv pv' n b"
  by (auto simp: insertNew_def Let_def split: if_splits option.splits)

subsection \<open>One iteration of each loop\<close>

lemma stage1_stop:
  "\<not> (idx < length old \<and> idx < length new \<and>
      tag (shadowView (old ! idx)) = tag (shadowView (new ! idx))) \<Longrightarrow>
   stage1 android meta pv old new idx b = Some (idx, b, meta)"
  by (subst stage1.simps) (auto simp: Let_def)

lemma stage1_step:
  "idx < length old \<Longrightarrow> idx < length new \<Longrightarrow>
   tag (shadowView (old ! idx)) = tag (shadowView (new ! idx)) \<Longrightarrow>
   stage1 android meta pv old new idx b =
     (case diff android meta (shadowView (old ! idx))
             (sliceChildShadowNodeViewPairs android (shadowNode (old ! idx)))
             (sliceChildShadowNodeViewPairs android (shadowNode (new ! idx))) of
        None \<Rightarrow> None
      | Some (ms, meta1) \<Rightarrow>
          stage1 android meta1 pv old new (Suc idx)
            (pushDown (sliceChildShadowNodeViewPairs android (shadowNode (new ! idx))) ms
               (pushUpdate pv (shadowView (old ! idx)) (shadowView (new ! idx)) (int idx) b)))"
  by (subst stage1.simps) (auto simp: Let_def split: option.splits)

lemma removeRest_stop:
  "\<not> idx < length old \<Longrightarrow> removeRest android meta pv old idx b = Some (b, meta)"
  by (subst removeRest.simps) simp

lemma removeRest_step:
  "idx < length old \<Longrightarrow>
   shouldRemoveDeleteUpdate (tag pv) (shadowNode (old ! idx)) (int idx) meta = (d, meta1) \<Longrightarrow>
   removeRest android meta pv old idx b =
     (case diff android meta1 (shadowView (old ! idx))
             (sliceChildShadowNodeViewPairs android (shadowNode (old ! idx))) [] of
        None \<Rightarrow> None
      | Some (ms, meta2) \<Rightarrow>
          removeRest android meta2 pv old (Suc idx)
            ((pushRemoveDelete pv (old ! idx) (int idx) d b)
               \<lparr>destructiveDownwardMutations :=
                  destructiveDownwardMutations (pushRemoveDelete pv (old ! idx) (int idx) d b) @ ms\<rparr>))"
  by (subst removeRest.simps) (auto simp: Let_def split: option.splits)

lemma createRest_stop:
  "\<not> idx < length new \<Longrightarrow> createRest android meta pv new idx b = Some (b, meta)"
  by (subst createRest.simps) simp

lemma createRest_step:
  "idx < length new \<Longrightarrow>
   shouldCreateInsertUpdate (tag pv) (shadowNode (new ! idx)) (int idx) meta = (d, meta1) \<Longrightarrow>
   createRest android meta pv new idx b =
     (case diff android meta1 (shadowView (new ! idx)) []
             (sliceChildShadowNodeViewPairs android (shadowNode (new ! idx))) of
        None \<Rightarrow> None
      | Some (ms, meta2) \<Rightarrow>
          createRest android meta2 pv new (Suc idx)
            ((pushInsertCreate pv (new ! idx) (int idx) d b)
               \<lparr>downwardMutations :=
                  downwardMutations (pushInsertCreate pv (new ! idx) (int idx) d b) @ ms\<rparr>))"
  by (subst createRest.simps) (auto simp: Let_def split: option.splits)

lemma createInserted_stop:
  "it = TinyMap_end ins \<Longrightarrow> createInserted android meta pv ins it b = Some (b, meta)"
  by (subst createInserted.simps) simp

lemma createInserted_undefined:
  "it \<noteq> TinyMap_end ins \<Longrightarrow> TinyMap_deref it ins = None \<Longrightarrow>
   createInserted android meta pv ins it b = None"
  by (subst createInserted.simps) simp

lemma createInserted_skip:
  "it \<noteq> TinyMap_end ins \<Longrightarrow> TinyMap_deref it ins = Some (0, p) \<Longrightarrow>
   createInserted android meta pv ins it b =
     createInserted android meta pv ins (map_option Suc it) b"
  by (subst createInserted.simps) simp

lemma createInserted_step:
  "it \<noteq> TinyMap_end ins \<Longrightarrow> TinyMap_deref it ins = Some (k, p) \<Longrightarrow> k \<noteq> 0 \<Longrightarrow>
   createInserted android meta pv ins it b =
     (case shouldCreateUpdate (shadowNode p) meta of
        None \<Rightarrow> None
      | Some (d, meta1) \<Rightarrow>
          (case diff android meta1 (shadowView p) []
                  (sliceChildShadowNodeViewPairs android (shadowNode p)) of
             None \<Rightarrow> None
           | Some (ms, meta2) \<Rightarrow>
               createInserted android meta2 pv ins (map_option Suc it)
                 ((pushCreated pv p d b)
                    \<lparr>downwardMutations := downwardMutations (pushCreated pv p d b) @ ms\<rparr>)))"
  by (subst createInserted.simps) (auto simp: Let_def split: option.splits)

definition aligned :: "ShadowViewNodePair list \<Rightarrow> ShadowViewNodePair list \<Rightarrow> nat \<Rightarrow> nat \<Rightarrow> bool" where
  "aligned old new oi ni =
     (ni < length new \<and> oi < length old \<and>
      tag (shadowView (new ! ni)) = tag (shadowView (old ! oi)))"

lemma walk_exit:
  "\<not> ni < length new \<Longrightarrow> \<not> oi < length old \<Longrightarrow>
   walk android meta pv old new idx rem ins oi ni b =
     createInserted android meta pv (snd (TinyMap_begin ins)) (fst (TinyMap_begin ins)) b"
  by (subst walk.simps) (simp add: case_prod_beta)

lemma walk_aligned:
  "aligned old new oi ni \<Longrightarrow>
   walk android meta pv old new idx rem ins oi ni b =
     (case eraseIfFound (tag (shadowView (old ! oi))) rem of
        None \<Rightarrow> None
      | Some rem1 \<Rightarrow>
          (case diff android meta (shadowView (old ! oi))
                  (sliceChildShadowNodeViewPairs android (shadowNode (old ! oi)))
                  (sliceChildShadowNodeViewPairs android (shadowNode (new ! ni))) of
             None \<Rightarrow> None
           | Some (ms, meta1) \<Rightarrow>
               walk android meta1 pv old new idx rem1 ins (Suc oi) (Suc ni)
                 (pushDown (sliceChildShadowNodeViewPairs android (shadowNode (new ! ni))) ms
                    (pushUpdate pv (shadowView (old ! oi)) (shadowView (new ! ni)) (int idx) b))))"
  by (subst walk.simps) (auto simp: aligned_def Let_def split: option.splits)

lemma walk_new_only:
  "\<not> oi < length old \<Longrightarrow> ni < length new \<Longrightarrow>
   walk android meta pv old new idx rem ins oi ni b =
     (case insertNew meta pv new ni b ins of
        None \<Rightarrow> None
      | Some (meta1, b1, ins1) \<Rightarrow> walk android meta1 pv old new idx rem ins1 oi (Suc ni) b1)"
  by (subst walk.simps) (auto simp: Let_def split: option.splits)

lemma walk_old_undefined:
  "\<not> aligned old new oi ni \<Longrightarrow> oi < length old \<Longrightarrow>
   TinyMap_find (tag (shadowView (old ! oi))) ins = None \<Longrightarrow>
   walk android meta pv old new idx rem ins oi ni b = None"
  by (subst walk.simps) (auto simp: aligned_def Let_def split: option.splits)

lemma walk_reordered:
  "\<not> aligned old new oi ni \<Longrightarrow> oi < length old \<Longrightarrow>
   TinyMap_find (tag (shadowView (old ! oi))) ins = Some (insertedIt, ins1) \<Longrightarrow>
   insertedIt \<noteq> TinyMap_end ins1 \<Longrightarrow>
   walk android meta pv old new idx rem ins oi ni b =
     (case TinyMap_deref insertedIt ins1 of
        None \<Rightarrow> None
      | Some (k, newChildPair) \<Rightarrow>
          (case diff android meta (shadowView (old ! oi))
                  (sliceChildShadowNodeViewPairs android (shadowNode (old ! oi)))
                  (sliceChildShadowNodeViewPairs android (shadowNode newChildPair)) of
             None \<Rightarrow> None
           | Some (ms, meta1) \<Rightarrow>
               (case TinyMap_erase insertedIt ins1 of
                  None \<Rightarrow> None
                | Some ins2 \<Rightarrow>
                    walk android meta1 pv old new idx rem ins2 (Suc oi) ni
                      (pushDown (sliceChildShadowNodeViewPairs android (shadowNode newChildPair)) ms
                         (pushUpdate pv (shadowView (old ! oi)) (shadowView newChildPair) (int idx)
                            (b\<lparr>removeMutations := removeMutations b @
                                 [RemoveMutation pv (shadowView (old ! oi)) (int oi)]\<rparr>))))))"
  by (subst walk.simps) (auto simp: aligned_def Let_def split: option.splits)

lemma walk_old_undefined2:
  "\<not> aligned old new oi ni \<Longrightarrow> oi < length old \<Longrightarrow>
   TinyMap_find (tag (shadowView (old ! oi))) ins = Some (insertedIt, ins1) \<Longrightarrow>
   insertedIt = TinyMap_end ins1 \<Longrightarrow>
   TinyMap_find (tag (shadowView (old ! oi))) rem = None \<Longrightarrow>
   walk android meta pv old new idx rem ins oi ni b = None"
  by (subst walk.simps) (auto simp: aligned_def Let_def split: option.splits)

lemma walk_disappeared:
  "\<not> aligned old new oi ni \<Longrightarrow> oi < length old \<Longrightarrow>
   TinyMap_find (tag (shadowView (old ! oi))) ins = Some (insertedIt, ins1) \<Longrightarrow>
   insertedIt = TinyMap_end ins1 \<Longrightarrow>
   TinyMap_find (tag (shadowView (old ! oi))) rem = Some (newIt, rem1) \<Longrightarrow>
   newIt = TinyMap_end rem1 \<Longrightarrow>
   shouldRemoveDeleteUpdate (-1) (shadowNode (old ! oi)) (-1) meta = (d, meta1) \<Longrightarrow>
   walk android meta pv old new idx rem ins oi ni b =
     (case diff android meta1 (shadowView (old ! oi))
             (sliceChildShadowNodeViewPairs android (shadowNode (old ! oi))) [] of
        None \<Rightarrow> None
      | Some (ms, meta2) \<Rightarrow>
          walk android meta2 pv old new idx rem1 ins1 (Suc oi) ni
            ((pushRemoved pv (old ! oi) (int oi) d b)
               \<lparr>destructiveDownwardMutations :=
                  destructiveDownwardMutations (pushRemoved pv (old ! oi) (int oi) d b) @ ms\<rparr>))"
  by (subst walk.simps) (auto simp: aligned_def Let_def split: option.splits)

lemma walk_insert:
  "\<not> aligned old new oi ni \<Longrightarrow> oi < length old \<Longrightarrow>
   TinyMap_find (tag (shadowView (old ! oi))) ins = Some (insertedIt, ins1) \<Longrightarrow>
   insertedIt = TinyMap_end ins1 \<Longrightarrow>
   TinyMap_find (tag (shadowView (old ! oi))) rem = Some (newIt, rem1) \<Longrightarrow>
   newIt \<noteq> TinyMap_end rem1 \<Longrightarrow>
   walk android meta pv old new idx rem ins oi ni b =
     (case insertNew meta pv new ni b ins1 of
        None \<Rightarrow> None
      | Some (meta1, b1, ins2) \<Rightarrow> walk android meta1 pv old new idx rem1 ins2 oi (Suc ni) b1)"
  by (subst walk.simps) (auto simp: aligned_def Let_def split: option.splits)

subsection \<open>The lists of one activation keep their types and the order of the removals\<close>

lemma insertNew_Some:
  "insertNew meta pv new ni b ins = Some (meta1, b1, ins1) \<Longrightarrow> ni < length new"
  by (auto simp: insertNew_def split: if_splits)

lemma stage1_levelInv:
  "stage1 android meta pv old new idx b = Some (idx', b', meta') \<Longrightarrow> levelInv pv n b \<Longrightarrow>
   levelInv pv n b'"
proof (induction "length old - idx" arbitrary: idx b meta rule: less_induct)
  case less
  show ?case
  proof (cases "idx < length old \<and> idx < length new \<and>
                tag (shadowView (old ! idx)) = tag (shadowView (new ! idx))")
    case False
    from stage1_stop[OF False] less.prems show ?thesis by simp
  next
    case True
    with less.prems(1) obtain ms meta1 where
      r: "stage1 android meta1 pv old new (Suc idx)
            (pushDown (sliceChildShadowNodeViewPairs android (shadowNode (new ! idx))) ms
               (pushUpdate pv (shadowView (old ! idx)) (shadowView (new ! idx)) (int idx) b)) =
          Some (idx', b', meta')"
      by (auto simp: stage1_step split: option.splits)
    from True have "idx < length old" by blast
    then have "length old - Suc idx < length old - idx" by arith
    from less.hyps[OF this r] less.prems(2) show ?thesis by simp
  qed
qed

lemma removeRest_levelInv:
  "removeRest android meta pv old idx b = Some (b', meta') \<Longrightarrow> levelInv pv (int idx) b \<Longrightarrow>
   \<exists>n. levelInv pv n b'"
proof (induction "length old - idx" arbitrary: idx b meta rule: less_induct)
  case less
  show ?case
  proof (cases "idx < length old")
    case False
    from removeRest_stop[OF False] less.prems show ?thesis by auto
  next
    case True
    obtain d meta1 where
      s: "shouldRemoveDeleteUpdate (tag pv) (shadowNode (old ! idx)) (int idx) meta = (d, meta1)"
      by (cases "shouldRemoveDeleteUpdate (tag pv) (shadowNode (old ! idx)) (int idx) meta")
    let ?b1 = "pushRemoveDelete pv (old ! idx) (int idx) d b"
    from less.prems(1) obtain ms meta2 where
      r: "removeRest android meta2 pv old (Suc idx)
            (?b1\<lparr>destructiveDownwardMutations := destructiveDownwardMutations ?b1 @ ms\<rparr>) =
          Some (b', meta')"
      by (auto simp: removeRest_step[OF True s] split: option.splits)
    have "levelInv pv (int (Suc idx))
            (?b1\<lparr>destructiveDownwardMutations := destructiveDownwardMutations ?b1 @ ms\<rparr>)"
      using levelInv_pushRemoveDelete[OF less.prems(2)] by simp
    from less.hyps[OF _ r this] True show ?thesis by simp
  qed
qed

lemma createRest_levelInv:
  "createRest android meta pv new idx b = Some (b', meta') \<Longrightarrow> levelInv pv n b \<Longrightarrow>
   levelInv pv n b'"
proof (induction "length new - idx" arbitrary: idx b meta rule: less_induct)
  case less
  show ?case
  proof (cases "idx < length new")
    case False
    from createRest_stop[OF False] less.prems show ?thesis by auto
  next
    case True
    obtain d meta1 where
      s: "shouldCreateInsertUpdate (tag pv) (shadowNode (new ! idx)) (int idx) meta = (d, meta1)"
      by (cases "shouldCreateInsertUpdate (tag pv) (shadowNode (new ! idx)) (int idx) meta")
    let ?b1 = "pushInsertCreate pv (new ! idx) (int idx) d b"
    from less.prems(1) obtain ms meta2 where
      r: "createRest android meta2 pv new (Suc idx)
            (?b1\<lparr>downwardMutations := downwardMutations ?b1 @ ms\<rparr>) =
          Some (b', meta')"
      by (auto simp: createRest_step[OF True s] split: option.splits)
    from less.hyps[OF _ r] True less.prems(2) show ?thesis by simp
  qed
qed

lemma createInserted_levelInv:
  "createInserted android meta pv ins it b = Some (b', meta') \<Longrightarrow> levelInv pv' n b \<Longrightarrow>
   levelInv pv' n b'"
proof (induction "length (vector ins) - (case it of None \<Rightarrow> 0 | Some i \<Rightarrow> i)"
       arbitrary: it b meta rule: less_induct)
  case less
  show ?case
  proof (cases "it = TinyMap_end ins")
    case True
    from createInserted_stop[OF True] less.prems show ?thesis by auto
  next
    case False
    show ?thesis
    proof (cases "TinyMap_deref it ins")
      case None
      from createInserted_undefined[OF False None] less.prems show ?thesis by simp
    next
      case (Some kp)
      obtain k p where kp: "kp = (k, p)" by (cases kp)
      from TinyMap_deref_Some[OF Some] obtain i where i: "it = Some i" "i < length (vector ins)"
        by auto
      show ?thesis
      proof (cases "k = 0")
        case True
        with createInserted_skip[OF False] Some kp less.prems(1)
        have r: "createInserted android meta pv ins (map_option Suc it) b = Some (b', meta')"
          by simp
        from less.hyps[OF _ r less.prems(2)] i show ?thesis by simp
      next
        case nz: False
        from less.prems(1) obtain d meta1 ms meta2 where
          r: "createInserted android meta2 pv ins (map_option Suc it)
                ((pushCreated pv p d b)
                   \<lparr>downwardMutations := downwardMutations (pushCreated pv p d b) @ ms\<rparr>) =
              Some (b', meta')"
          using createInserted_step[OF False Some[unfolded kp] nz]
          by (auto split: option.splits)
        from less.hyps[OF _ r] i less.prems(2) show ?thesis by simp
      qed
    qed
  qed
qed

lemma walk_levelInv:
  "walk android meta pv old new idx rem ins oi ni b = Some (b', meta') \<Longrightarrow>
   levelInv pv (int oi) b \<Longrightarrow> \<exists>n. levelInv pv n b'"
proof (induction "(length new - ni) + (length old - oi)"
       arbitrary: meta rem ins oi ni b rule: less_induct)
  case less
  note w = less.prems(1) and inv = less.prems(2)
  have invS: "levelInv pv (int (Suc oi)) b"
    using inv by (rule levelInv_mono) simp
  show ?case
  proof (cases "aligned old new oi ni")
    case True
    then have lt: "ni < length new" "oi < length old" by (simp_all add: aligned_def)
    from w obtain rem1 ms meta1 where
      r: "walk android meta1 pv old new idx rem1 ins (Suc oi) (Suc ni)
            (pushDown (sliceChildShadowNodeViewPairs android (shadowNode (new ! ni))) ms
               (pushUpdate pv (shadowView (old ! oi)) (shadowView (new ! ni)) (int idx) b)) =
          Some (b', meta')"
      by (auto simp: walk_aligned[OF True] split: option.splits)
    from less.hyps[OF _ r] lt invS show ?thesis by simp
  next
    case na: False
    show ?thesis
    proof (cases "oi < length old")
      case False
      show ?thesis
      proof (cases "ni < length new")
        case False
        from w walk_exit[OF False \<open>\<not> oi < length old\<close>]
        have "createInserted android meta pv (snd (TinyMap_begin ins)) (fst (TinyMap_begin ins)) b =
              Some (b', meta')" by simp
        from createInserted_levelInv[OF this inv] show ?thesis by auto
      next
        case True
        from w obtain meta1 b1 ins1 where
          i: "insertNew meta pv new ni b ins = Some (meta1, b1, ins1)" and
          r: "walk android meta1 pv old new idx rem ins1 oi (Suc ni) b1 = Some (b', meta')"
          by (auto simp: walk_new_only[OF False True] split: option.splits)
        from less.hyps[OF _ r] True inv levelInv_insertNew[OF i] show ?thesis by simp
      qed
    next
      case old: True
      show ?thesis
      proof (cases "TinyMap_find (tag (shadowView (old ! oi))) ins")
        case None
        from w walk_old_undefined[OF na old None] show ?thesis by simp
      next
        case (Some f1)
        obtain insertedIt ins1 where f1: "f1 = (insertedIt, ins1)" by (cases f1)
        note fi = Some[unfolded f1]
        show ?thesis
        proof (cases "insertedIt = TinyMap_end ins1")
          case False
          from w obtain k newChildPair ms meta1 ins2 where
            r: "walk android meta1 pv old new idx rem ins2 (Suc oi) ni
                  (pushDown (sliceChildShadowNodeViewPairs android (shadowNode newChildPair)) ms
                     (pushUpdate pv (shadowView (old ! oi)) (shadowView newChildPair) (int idx)
                        (b\<lparr>removeMutations := removeMutations b @
                             [RemoveMutation pv (shadowView (old ! oi)) (int oi)]\<rparr>))) =
                Some (b', meta')"
            by (auto simp: walk_reordered[OF na old fi False] split: option.splits)
          from less.hyps[OF _ r] old levelInv_remove[OF inv] show ?thesis by simp
        next
          case e1: True
          show ?thesis
          proof (cases "TinyMap_find (tag (shadowView (old ! oi))) rem")
            case None
            from w walk_old_undefined2[OF na old fi e1 None] show ?thesis by simp
          next
            case (Some f2)
            obtain newIt rem1 where f2: "f2 = (newIt, rem1)" by (cases f2)
            note fr = Some[unfolded f2]
            show ?thesis
            proof (cases "newIt = TinyMap_end rem1")
              case True
              obtain d meta1 where
                s: "shouldRemoveDeleteUpdate (-1) (shadowNode (old ! oi)) (-1) meta = (d, meta1)"
                by (cases "shouldRemoveDeleteUpdate (-1) (shadowNode (old ! oi)) (-1) meta")
              let ?b1 = "pushRemoved pv (old ! oi) (int oi) d b"
              from w obtain ms meta2 where
                r: "walk android meta2 pv old new idx rem1 ins1 (Suc oi) ni
                      (?b1\<lparr>destructiveDownwardMutations :=
                             destructiveDownwardMutations ?b1 @ ms\<rparr>) = Some (b', meta')"
                by (auto simp: walk_disappeared[OF na old fi e1 fr True s] split: option.splits)
              from less.hyps[OF _ r] old levelInv_pushRemoved[OF inv] show ?thesis by simp
            next
              case False
              from w obtain meta1 b1 ins2 where
                i: "insertNew meta pv new ni b ins1 = Some (meta1, b1, ins2)" and
                r: "walk android meta1 pv old new idx rem1 ins2 oi (Suc ni) b1 = Some (b', meta')"
                by (auto simp: walk_insert[OF na old fi e1 fr False] split: option.splits)
              from less.hyps[OF _ r] insertNew_Some[OF i] inv levelInv_insertNew[OF i]
              show ?thesis by simp
            qed
          qed
        qed
      qed
    qed
  qed
qed

lemma activation_levelInv:
  assumes "activationBuckets android meta pv old new = Some (b, meta')"
  shows "\<exists>n. levelInv pv n b"
proof (cases "old = [] \<and> new = []")
  case True
  with assms show ?thesis by (auto simp: activationBuckets_def)
next
  case False
  let ?old = "reorderInPlaceIfNeeded old" and ?new = "reorderInPlaceIfNeeded new"
  from assms False obtain idx b1 meta1 where
    s: "stage1 android meta pv ?old ?new 0 Buckets_empty = Some (idx, b1, meta1)" and
    r: "(if idx = length ?new then removeRest android meta1 pv ?old idx b1
         else if idx = length ?old then createRest android meta1 pv ?new idx b1
         else walk android meta1 pv ?old ?new (snd (fillRemaining ?new idx TinyMap_empty))
                (fst (fillRemaining ?new idx TinyMap_empty)) TinyMap_empty idx idx b1) =
        Some (b, meta')"
    by (auto simp: activationBuckets_def Let_def case_prod_beta split: option.splits if_splits)
  have i0: "levelInv pv (int idx) b1"
    using stage1_levelInv[OF s, of "int idx"] by simp
  consider (rm) "removeRest android meta1 pv ?old idx b1 = Some (b, meta')"
    | (cr) "createRest android meta1 pv ?new idx b1 = Some (b, meta')"
    | (wk) "walk android meta1 pv ?old ?new (snd (fillRemaining ?new idx TinyMap_empty))
                (fst (fillRemaining ?new idx TinyMap_empty)) TinyMap_empty idx idx b1 =
            Some (b, meta')"
    using r by (auto split: if_splits)
  then show ?thesis
  proof cases
    case rm
    from removeRest_levelInv[OF rm i0] show ?thesis .
  next
    case cr
    from createRest_levelInv[OF cr i0] show ?thesis by blast
  next
    case wk
    from walk_levelInv[OF wk i0] show ?thesis .
  qed
qed

subsection \<open>Equal lists\<close>


lemmas diff_induct = diff_stage1_removeRest_createRest_walk_createInserted.induct

lemma pushUpdate_same [simp]: "pushUpdate pv v v i b = b"
  by (simp add: pushUpdate_def)

lemma pushDown_Nil [simp]: "pushDown g [] b = b"
  by (simp add: pushDown_def)

lemma null_diff_aux:
  "old = new \<Longrightarrow> diff android meta pv old new = Some ([], meta)"
  "old = new \<Longrightarrow> stage1 android meta pv old new idx b = Some (max idx (length old), b, meta)"
  "removeRest android meta pv old idx b = removeRest android meta pv old idx b"
  "createRest android meta pv new idx b = createRest android meta pv new idx b"
  "walk android meta pv old new idx rem ins oldIndex newIndex b =
   walk android meta pv old new idx rem ins oldIndex newIndex b"
  "createInserted android meta pv ins it b = createInserted android meta pv ins it b"
proof (induction android meta pv old new and android meta pv old new idx b
         and android meta pv old idx b and android meta pv new idx b
         and android meta pv old new idx rem ins oldIndex newIndex b
         and android meta pv ins it b
       rule: diff_induct)
  case (1 android meta parentView oldChildPairs0 newChildPairs0)
  show ?case
  proof (cases "oldChildPairs0 = []")
    case True
    with "1.prems" show ?thesis by (simp add: diff.simps)
  next
    case False
    let ?ps = "reorderInPlaceIfNeeded oldChildPairs0"
    have s: "stage1 android meta parentView ?ps ?ps 0 Buckets_empty =
             Some (length ?ps, Buckets_empty, meta)"
      using "1.IH"(1)[OF _ refl refl] False "1.prems" by simp
    have r: "removeRest android meta parentView ?ps (length ?ps) Buckets_empty =
             Some (Buckets_empty, meta)"
      by (simp add: removeRest.simps)
    show ?thesis
      using False "1.prems" s r by (simp add: diff.simps)
  qed
next
  case (2 android meta parentView oldChildPairs newChildPairs idx b)
  show ?case
  proof (cases "idx < length oldChildPairs")
    case True
    have d: "diff android meta (shadowView (oldChildPairs ! idx))
               (sliceChildShadowNodeViewPairs android (shadowNode (oldChildPairs ! idx)))
               (sliceChildShadowNodeViewPairs android (shadowNode (newChildPairs ! idx))) =
             Some ([], meta)"
      using "2.IH"(1)[OF _ refl refl _ refl refl refl] True "2.prems" by simp
    have "stage1 android meta parentView oldChildPairs newChildPairs (Suc idx) b =
          Some (max (Suc idx) (length oldChildPairs), b, meta)"
      using "2.IH"(2)[OF _ refl refl _ refl refl refl d refl] True "2.prems" by simp
    then show ?thesis
      using True "2.prems" d by (subst stage1.simps) (simp add: max_def)
  next
    case False
    then show ?thesis using "2.prems" by (subst stage1.simps) (simp add: max_def)
  qed
qed simp_all


section \<open>Reparenting detection on and off\<close>

definition typesOf :: "ShadowViewMutation list \<Rightarrow> Type set" where
  "typesOf ms = type ` set ms"

definition bucketTypes :: "Buckets \<Rightarrow> Type set" where
  "bucketTypes b = typesOf (allMutations b)"

text \<open>
  \<open>subsumed b bd\<close>: the lists \<open>b\<close> of a run hold no mutation type, Update apart, that the
  lists \<open>bd\<close> of the run with detection off do not hold.
\<close>

definition subsumed :: "Buckets \<Rightarrow> Buckets \<Rightarrow> bool" where
  "subsumed b bd = (bucketTypes b \<subseteq> insert Update (bucketTypes bd))"

definition simDiff :: "bool \<Rightarrow> ShadowView \<Rightarrow> ShadowViewNodePair list \<Rightarrow> ShadowViewNodePair list \<Rightarrow> bool" where
  "simDiff android pv old new =
     (\<forall>meta md ms meta' msd md'.
        diff android meta pv old new = Some (ms, meta') \<longrightarrow> \<not> enabled md \<longrightarrow>
        diff android md pv old new = Some (msd, md') \<longrightarrow>
        typesOf ms \<subseteq> insert Update (typesOf msd) \<and> md' = md)"

lemma disabled_decisions:
  "\<not> enabled md \<Longrightarrow> shouldRemoveDeleteUpdate p n i md = ((True, True, None), md)"
  "\<not> enabled md \<Longrightarrow> shouldCreateInsertUpdate p n i md = ((True, True, None), md)"
  "\<not> enabled md \<Longrightarrow> shouldCreateUpdate n md = Some ((True, None), md)"
  "\<not> enabled md \<Longrightarrow> markInserted p n i md = Some md"
  by (simp_all add: shouldRemoveDeleteUpdate_def shouldCreateInsertUpdate_def
      shouldCreateUpdate_def markInserted_def)

lemma insertNew_result:
  "insertNew meta pv new ni b ins = Some (meta1, b1, ins1) \<Longrightarrow>
   b1 = b\<lparr>insertMutations := insertMutations b @
            [InsertMutation pv (shadowView (new ! ni)) (int ni)]\<rparr> \<and>
   ins1 = TinyMap_insert (tag (shadowView (new ! ni)), new ! ni) ins"
  by (auto simp: insertNew_def Let_def split: if_splits option.splits)

lemma insertNew_disabled:
  "insertNew md pv new ni b ins = Some (md1, b1, ins1) \<Longrightarrow> \<not> enabled md \<Longrightarrow> md1 = md"
  by (auto simp: insertNew_def Let_def disabled_decisions split: if_splits option.splits)

lemma typesOf_simps [simp]:
  "typesOf [] = {}" "typesOf (xs @ ys) = typesOf xs \<union> typesOf ys"
  "typesOf (x # xs) = insert (type x) (typesOf xs)" "typesOf (rev xs) = typesOf xs"
  by (auto simp: typesOf_def)

lemma bucketTypes_alt:
  "bucketTypes b =
     typesOf (destructiveDownwardMutations b) \<union> typesOf (updateMutations b) \<union>
     typesOf (removeMutations b) \<union> typesOf (deleteMutations b) \<union>
     typesOf (createMutations b) \<union> typesOf (downwardMutations b) \<union>
     typesOf (insertMutations b)"
  by (auto simp: bucketTypes_def allMutations_def)

lemma bucketTypes_empty [simp]: "bucketTypes Buckets_empty = {}"
  by (simp add: bucketTypes_alt Buckets_empty_def)

lemma bucketTypes_pushUpdate:
  "bucketTypes (pushUpdate pv v w i b) = (if v \<noteq> w then insert Update (bucketTypes b) else bucketTypes b)"
  by (auto simp: bucketTypes_alt pushUpdate_def)

lemma bucketTypes_pushDown [simp]:
  "bucketTypes (pushDown g ms b) = bucketTypes b \<union> typesOf ms"
  by (auto simp: bucketTypes_alt pushDown_def)

lemma bucketTypes_downward [simp]:
  "bucketTypes (b\<lparr>downwardMutations := downwardMutations b @ ms\<rparr>) = bucketTypes b \<union> typesOf ms"
  "bucketTypes (b\<lparr>destructiveDownwardMutations := destructiveDownwardMutations b @ ms\<rparr>) =
     bucketTypes b \<union> typesOf ms"
  by (auto simp: bucketTypes_alt)

lemma bucketTypes_push [simp]:
  "bucketTypes (b\<lparr>removeMutations := removeMutations b @ [RemoveMutation pv v i]\<rparr>) =
     insert Remove (bucketTypes b)"
  "bucketTypes (b\<lparr>insertMutations := insertMutations b @ [InsertMutation pv v i]\<rparr>) =
     insert Insert (bucketTypes b)"
  "bucketTypes (b\<lparr>deleteMutations := deleteMutations b @ [DeleteMutation v]\<rparr>) =
     insert Delete (bucketTypes b)"
  "bucketTypes (b\<lparr>createMutations := createMutations b @ [CreateMutation v]\<rparr>) =
     insert Create (bucketTypes b)"
  by (auto simp: bucketTypes_alt)

lemma subsumed_update_left [simp]:
  "subsumed (pushUpdate pv v w i b) bd = subsumed b bd"
  by (auto simp: subsumed_def bucketTypes_pushUpdate)

lemma subsumed_update_right:
  "subsumed b bd \<Longrightarrow> subsumed b (pushUpdate pv v w i bd)"
  by (auto simp: subsumed_def bucketTypes_pushUpdate)

lemma subsumed_pushDown:
  "subsumed b bd \<Longrightarrow> typesOf ms \<subseteq> insert Update (typesOf msd) \<Longrightarrow>
   subsumed (pushDown g ms b) (pushDown g msd bd)"
  by (auto simp: subsumed_def)

lemma subsumed_downward:
  "subsumed b bd \<Longrightarrow> typesOf ms \<subseteq> insert Update (typesOf msd) \<Longrightarrow>
   subsumed (b\<lparr>downwardMutations := downwardMutations b @ ms\<rparr>)
            (bd\<lparr>downwardMutations := downwardMutations bd @ msd\<rparr>)"
  "subsumed b bd \<Longrightarrow> typesOf ms \<subseteq> insert Update (typesOf msd) \<Longrightarrow>
   subsumed (b\<lparr>destructiveDownwardMutations := destructiveDownwardMutations b @ ms\<rparr>)
            (bd\<lparr>destructiveDownwardMutations := destructiveDownwardMutations bd @ msd\<rparr>)"
  by (auto simp: subsumed_def)

lemma subsumed_remove:
  "subsumed b bd \<Longrightarrow>
   subsumed (b\<lparr>removeMutations := removeMutations b @ [RemoveMutation pv v i]\<rparr>)
            (bd\<lparr>removeMutations := removeMutations bd @ [RemoveMutation pv v i]\<rparr>)"
  by (auto simp: subsumed_def)

lemma subsumed_insert:
  "subsumed b bd \<Longrightarrow>
   subsumed (b\<lparr>insertMutations := insertMutations b @ [InsertMutation pv v i]\<rparr>)
            (bd\<lparr>insertMutations := insertMutations bd @ [InsertMutation pv v i]\<rparr>)"
  by (auto simp: subsumed_def)

lemma subsumed_pushRemoveDelete:
  "subsumed b bd \<Longrightarrow>
   subsumed (pushRemoveDelete pv p i d b) (pushRemoveDelete pv p i (True, True, None) bd)"
  by (auto simp: subsumed_def pushRemoveDelete_def Let_def bucketTypes_alt pushUpdate_def
      split: prod.splits option.splits if_splits)

lemma subsumed_pushInsertCreate:
  "subsumed b bd \<Longrightarrow>
   subsumed (pushInsertCreate pv p i d b) (pushInsertCreate pv p i (True, True, None) bd)"
  by (auto simp: subsumed_def pushInsertCreate_def Let_def bucketTypes_alt pushUpdate_def
      split: prod.splits option.splits if_splits)

lemma subsumed_pushRemoved:
  "subsumed b bd \<Longrightarrow>
   subsumed (pushRemoved pv p i d b) (pushRemoved pv p i (True, True, None) bd)"
  by (auto simp: subsumed_def pushRemoved_def Let_def bucketTypes_alt pushUpdate_def
      split: prod.splits option.splits if_splits)

lemma subsumed_pushCreated:
  "subsumed b bd \<Longrightarrow>
   subsumed (pushCreated pv p d b) (pushCreated pv p (True, None) bd)"
  by (auto simp: subsumed_def pushCreated_def Let_def bucketTypes_alt pushUpdate_def
      split: prod.splits option.splits if_splits)

lemma simDiffD:
  "simDiff android pv old new \<Longrightarrow> diff android meta pv old new = Some (ms, meta') \<Longrightarrow>
   \<not> enabled md \<Longrightarrow> diff android md pv old new = Some (msd, md') \<Longrightarrow>
   typesOf ms \<subseteq> insert Update (typesOf msd) \<and> md' = md"
  unfolding simDiff_def by blast

lemma stage1_sim:
  assumes A: "\<And>pv' ol nw. pairsBound ol < K \<Longrightarrow> pairsBound nw < K \<Longrightarrow> simDiff android pv' ol nw"
    and off: "\<not> enabled md" and bo: "pairsBound old \<le> K" and bn: "pairsBound new \<le> K"
  shows "stage1 android meta pv old new idx b = Some (idx', b', meta') \<Longrightarrow>
         stage1 android md pv old new idx bd = Some (idxd, bd', md') \<Longrightarrow> subsumed b bd \<Longrightarrow>
         idx' = idxd \<and> subsumed b' bd' \<and> md' = md"
proof (induction "length old - idx" arbitrary: idx b bd meta rule: less_induct)
  case less
  show ?case
  proof (cases "idx < length old \<and> idx < length new \<and>
                tag (shadowView (old ! idx)) = tag (shadowView (new ! idx))")
    case False
    from stage1_stop[OF False] less.prems show ?thesis by simp
  next
    case True
    then have lt: "idx < length old" "idx < length new"
      and tg: "tag (shadowView (old ! idx)) = tag (shadowView (new ! idx))" by blast+
    let ?og = "sliceChildShadowNodeViewPairs android (shadowNode (old ! idx))"
    let ?ng = "sliceChildShadowNodeViewPairs android (shadowNode (new ! idx))"
    let ?v = "shadowView (old ! idx)" and ?w = "shadowView (new ! idx)"
    from less.prems(1) obtain ms meta1 where
      d1: "diff android meta ?v ?og ?ng = Some (ms, meta1)" and
      r1: "stage1 android meta1 pv old new (Suc idx) (pushDown ?ng ms (pushUpdate pv ?v ?w (int idx) b)) =
           Some (idx', b', meta')"
      by (auto simp: stage1_step[OF lt tg] split: option.splits)
    from less.prems(2) obtain msd md1 where
      d2: "diff android md ?v ?og ?ng = Some (msd, md1)" and
      r2: "stage1 android md1 pv old new (Suc idx) (pushDown ?ng msd (pushUpdate pv ?v ?w (int idx) bd)) =
           Some (idxd, bd', md')"
      by (auto simp: stage1_step[OF lt tg] split: option.splits)
    have "pairsBound ?og < K" "pairsBound ?ng < K"
      using pairsBound_slice_nth[OF lt(1), of android] pairsBound_slice_nth[OF lt(2), of android] bo bn
      by simp_all
    from simDiffD[OF A[OF this] d1 off d2] have t: "typesOf ms \<subseteq> insert Update (typesOf msd)"
      and m: "md1 = md" by simp_all
    have s: "subsumed (pushDown ?ng ms (pushUpdate pv ?v ?w (int idx) b))
                      (pushDown ?ng msd (pushUpdate pv ?v ?w (int idx) bd))"
      using less.prems(3) t by (intro subsumed_pushDown subsumed_update_right) simp_all
    have "length old - Suc idx < length old - idx" using lt(1) by arith
    from less.hyps[OF this r1 r2[unfolded m] s] show ?thesis .
  qed
qed

lemma removeRest_sim:
  assumes A: "\<And>pv' ol nw. pairsBound ol < K \<Longrightarrow> pairsBound nw < K \<Longrightarrow> simDiff android pv' ol nw"
    and off: "\<not> enabled md" and bo: "pairsBound old \<le> K"
  shows "removeRest android meta pv old idx b = Some (b', meta') \<Longrightarrow>
         removeRest android md pv old idx bd = Some (bd', md') \<Longrightarrow> subsumed b bd \<Longrightarrow>
         subsumed b' bd' \<and> md' = md"
proof (induction "length old - idx" arbitrary: idx b bd meta rule: less_induct)
  case less
  show ?case
  proof (cases "idx < length old")
    case False
    from removeRest_stop[OF False] less.prems show ?thesis by simp
  next
    case True
    let ?og = "sliceChildShadowNodeViewPairs android (shadowNode (old ! idx))"
    let ?v = "shadowView (old ! idx)"
    obtain d meta1 where
      s: "shouldRemoveDeleteUpdate (tag pv) (shadowNode (old ! idx)) (int idx) meta = (d, meta1)"
      by (cases "shouldRemoveDeleteUpdate (tag pv) (shadowNode (old ! idx)) (int idx) meta")
    let ?b1 = "pushRemoveDelete pv (old ! idx) (int idx) d b"
    let ?bd1 = "pushRemoveDelete pv (old ! idx) (int idx) (True, True, None) bd"
    from less.prems(1) obtain ms meta2 where
      d1: "diff android meta1 ?v ?og [] = Some (ms, meta2)" and
      r1: "removeRest android meta2 pv old (Suc idx)
             (?b1\<lparr>destructiveDownwardMutations := destructiveDownwardMutations ?b1 @ ms\<rparr>) =
           Some (b', meta')"
      by (auto simp: removeRest_step[OF True s] split: option.splits)
    from less.prems(2) obtain msd md2 where
      d2: "diff android md ?v ?og [] = Some (msd, md2)" and
      r2: "removeRest android md2 pv old (Suc idx)
             (?bd1\<lparr>destructiveDownwardMutations := destructiveDownwardMutations ?bd1 @ msd\<rparr>) =
           Some (bd', md')"
      by (auto simp: removeRest_step[OF True disabled_decisions(1)[OF off]] split: option.splits)
    have "pairsBound ?og < K" using pairsBound_slice_nth[OF True, of android] bo by simp
    then have "pairsBound ?og < K" "pairsBound [] < K" by simp_all
    from simDiffD[OF A[OF this] d1 off d2] have t: "typesOf ms \<subseteq> insert Update (typesOf msd)"
      and m: "md2 = md" by simp_all
    have sb: "subsumed (?b1\<lparr>destructiveDownwardMutations := destructiveDownwardMutations ?b1 @ ms\<rparr>)
                       (?bd1\<lparr>destructiveDownwardMutations := destructiveDownwardMutations ?bd1 @ msd\<rparr>)"
      using subsumed_pushRemoveDelete[OF less.prems(3)] t by (rule subsumed_downward(2))
    have "length old - Suc idx < length old - idx" using True by arith
    from less.hyps[OF this r1 r2[unfolded m] sb] show ?thesis .
  qed
qed

lemma createRest_sim:
  assumes A: "\<And>pv' ol nw. pairsBound ol < K \<Longrightarrow> pairsBound nw < K \<Longrightarrow> simDiff android pv' ol nw"
    and off: "\<not> enabled md" and bn: "pairsBound new \<le> K"
  shows "createRest android meta pv new idx b = Some (b', meta') \<Longrightarrow>
         createRest android md pv new idx bd = Some (bd', md') \<Longrightarrow> subsumed b bd \<Longrightarrow>
         subsumed b' bd' \<and> md' = md"
proof (induction "length new - idx" arbitrary: idx b bd meta rule: less_induct)
  case less
  show ?case
  proof (cases "idx < length new")
    case False
    from createRest_stop[OF False] less.prems show ?thesis by simp
  next
    case True
    let ?ng = "sliceChildShadowNodeViewPairs android (shadowNode (new ! idx))"
    let ?v = "shadowView (new ! idx)"
    obtain d meta1 where
      s: "shouldCreateInsertUpdate (tag pv) (shadowNode (new ! idx)) (int idx) meta = (d, meta1)"
      by (cases "shouldCreateInsertUpdate (tag pv) (shadowNode (new ! idx)) (int idx) meta")
    let ?b1 = "pushInsertCreate pv (new ! idx) (int idx) d b"
    let ?bd1 = "pushInsertCreate pv (new ! idx) (int idx) (True, True, None) bd"
    from less.prems(1) obtain ms meta2 where
      d1: "diff android meta1 ?v [] ?ng = Some (ms, meta2)" and
      r1: "createRest android meta2 pv new (Suc idx)
             (?b1\<lparr>downwardMutations := downwardMutations ?b1 @ ms\<rparr>) = Some (b', meta')"
      by (auto simp: createRest_step[OF True s] split: option.splits)
    from less.prems(2) obtain msd md2 where
      d2: "diff android md ?v [] ?ng = Some (msd, md2)" and
      r2: "createRest android md2 pv new (Suc idx)
             (?bd1\<lparr>downwardMutations := downwardMutations ?bd1 @ msd\<rparr>) = Some (bd', md')"
      by (auto simp: createRest_step[OF True disabled_decisions(2)[OF off]] split: option.splits)
    have "pairsBound ?ng < K" using pairsBound_slice_nth[OF True, of android] bn by simp
    then have "pairsBound [] < K" "pairsBound ?ng < K" by simp_all
    from simDiffD[OF A[OF this] d1 off d2] have t: "typesOf ms \<subseteq> insert Update (typesOf msd)"
      and m: "md2 = md" by simp_all
    have sb: "subsumed (?b1\<lparr>downwardMutations := downwardMutations ?b1 @ ms\<rparr>)
                       (?bd1\<lparr>downwardMutations := downwardMutations ?bd1 @ msd\<rparr>)"
      using subsumed_pushInsertCreate[OF less.prems(3)] t by (rule subsumed_downward(1))
    have "length new - Suc idx < length new - idx" using True by arith
    from less.hyps[OF this r1 r2[unfolded m] sb] show ?thesis .
  qed
qed

lemma createInserted_sim:
  assumes A: "\<And>pv' ol nw. pairsBound ol < K \<Longrightarrow> pairsBound nw < K \<Longrightarrow> simDiff android pv' ol nw"
    and off: "\<not> enabled md" and bi: "mapBound ins \<le> K"
  shows "createInserted android meta pv ins it b = Some (b', meta') \<Longrightarrow>
         createInserted android md pv ins it bd = Some (bd', md') \<Longrightarrow> subsumed b bd \<Longrightarrow>
         subsumed b' bd' \<and> md' = md"
proof (induction "length (vector ins) - (case it of None \<Rightarrow> 0 | Some i \<Rightarrow> i)"
       arbitrary: it b bd meta rule: less_induct)
  case less
  show ?case
  proof (cases "it = TinyMap_end ins")
    case True
    from createInserted_stop[OF True] less.prems show ?thesis by simp
  next
    case False
    show ?thesis
    proof (cases "TinyMap_deref it ins")
      case None
      from createInserted_undefined[OF False None] less.prems show ?thesis by simp
    next
      case (Some kp)
      obtain k p where kp: "kp = (k, p)" by (cases kp)
      note de = Some[unfolded kp]
      from TinyMap_deref_Some[OF Some] obtain i where i: "it = Some i" "i < length (vector ins)"
        by auto
      then have dec: "length (vector ins) - (case map_option Suc it of None \<Rightarrow> 0 | Some i \<Rightarrow> i)
                      < length (vector ins) - (case it of None \<Rightarrow> 0 | Some i \<Rightarrow> i)"
        by simp
      show ?thesis
      proof (cases "k = 0")
        case True
        from createInserted_skip[OF False] de True less.prems(1,2)
        have r1: "createInserted android meta pv ins (map_option Suc it) b = Some (b', meta')"
          and r2: "createInserted android md pv ins (map_option Suc it) bd = Some (bd', md')"
          by simp_all
        from less.hyps[OF dec r1 r2 less.prems(3)] show ?thesis .
      next
        case nz: False
        let ?ng = "sliceChildShadowNodeViewPairs android (shadowNode p)"
        from less.prems(1) obtain d meta1 ms meta2 where
          d1: "diff android meta1 (shadowView p) [] ?ng = Some (ms, meta2)" and
          r1: "createInserted android meta2 pv ins (map_option Suc it)
                ((pushCreated pv p d b)
                   \<lparr>downwardMutations := downwardMutations (pushCreated pv p d b) @ ms\<rparr>) =
              Some (b', meta')"
          using createInserted_step[OF False de nz]
          by (auto split: option.splits)
        let ?bd1 = "pushCreated pv p (True, None) bd"
        from less.prems(2) obtain msd md2 where
          d2: "diff android md (shadowView p) [] ?ng = Some (msd, md2)" and
          r2: "createInserted android md2 pv ins (map_option Suc it)
                (?bd1\<lparr>downwardMutations := downwardMutations ?bd1 @ msd\<rparr>) = Some (bd', md')"
          using createInserted_step[OF False de nz, of android md pv bd]
          by (auto simp: disabled_decisions(3)[OF off] split: option.splits)
        have "pairsBound ?ng < K" using mapBound_deref_slice[OF de, of android] bi by simp
        then have "pairsBound [] < K" "pairsBound ?ng < K" by simp_all
        from simDiffD[OF A[OF this] d1 off d2] have t: "typesOf ms \<subseteq> insert Update (typesOf msd)"
          and m: "md2 = md" by simp_all
        have sb: "subsumed ((pushCreated pv p d b)
                   \<lparr>downwardMutations := downwardMutations (pushCreated pv p d b) @ ms\<rparr>)
                  (?bd1\<lparr>downwardMutations := downwardMutations ?bd1 @ msd\<rparr>)"
          using subsumed_pushCreated[OF less.prems(3)] t by (rule subsumed_downward(1))
        from less.hyps[OF dec r1 r2[unfolded m] sb] show ?thesis .
      qed
    qed
  qed
qed

lemma walk_sim:
  assumes A: "\<And>pv' ol nw. pairsBound ol < K \<Longrightarrow> pairsBound nw < K \<Longrightarrow> simDiff android pv' ol nw"
    and off: "\<not> enabled md" and bo: "pairsBound old \<le> K" and bn: "pairsBound new \<le> K"
  shows "walk android meta pv old new idx rem ins oi ni b = Some (b', meta') \<Longrightarrow>
         walk android md pv old new idx rem ins oi ni bd = Some (bd', md') \<Longrightarrow>
         subsumed b bd \<Longrightarrow> mapBound ins \<le> K \<Longrightarrow> subsumed b' bd' \<and> md' = md"
proof (induction "(length new - ni) + (length old - oi)"
       arbitrary: meta rem ins oi ni b bd rule: less_induct)
  case less
  note w1 = less.prems(1) and w2 = less.prems(2) and sub = less.prems(3) and bi = less.prems(4)
  let ?v = "shadowView (old ! oi)"
  let ?og = "sliceChildShadowNodeViewPairs android (shadowNode (old ! oi))"
  show ?case
  proof (cases "aligned old new oi ni")
    case True
    then have lt: "ni < length new" "oi < length old" by (simp_all add: aligned_def)
    let ?ng = "sliceChildShadowNodeViewPairs android (shadowNode (new ! ni))"
    let ?w = "shadowView (new ! ni)"
    from w1 obtain rem1 ms meta1 where
      e1: "eraseIfFound (tag ?v) rem = Some rem1" and
      d1: "diff android meta ?v ?og ?ng = Some (ms, meta1)" and
      r1: "walk android meta1 pv old new idx rem1 ins (Suc oi) (Suc ni)
             (pushDown ?ng ms (pushUpdate pv ?v ?w (int idx) b)) = Some (b', meta')"
      by (auto simp: walk_aligned[OF True] split: option.splits)
    from w2 e1 obtain msd md1 where
      d2: "diff android md ?v ?og ?ng = Some (msd, md1)" and
      r2: "walk android md1 pv old new idx rem1 ins (Suc oi) (Suc ni)
             (pushDown ?ng msd (pushUpdate pv ?v ?w (int idx) bd)) = Some (bd', md')"
      by (auto simp: walk_aligned[OF True] split: option.splits)
    have "pairsBound ?og < K" "pairsBound ?ng < K"
      using pairsBound_slice_nth[OF lt(2), of android] pairsBound_slice_nth[OF lt(1), of android] bo bn
      by simp_all
    from simDiffD[OF A[OF this] d1 off d2] have t: "typesOf ms \<subseteq> insert Update (typesOf msd)"
      and m: "md1 = md" by simp_all
    have s: "subsumed (pushDown ?ng ms (pushUpdate pv ?v ?w (int idx) b))
                      (pushDown ?ng msd (pushUpdate pv ?v ?w (int idx) bd))"
      using sub t by (intro subsumed_pushDown subsumed_update_right) simp_all
    have "(length new - Suc ni) + (length old - Suc oi) < (length new - ni) + (length old - oi)"
      using lt by arith
    from less.hyps[OF this r1 r2[unfolded m] s bi] show ?thesis .
  next
    case na: False
    show ?thesis
    proof (cases "oi < length old")
      case False
      show ?thesis
      proof (cases "ni < length new")
        case False
        let ?it = "fst (TinyMap_begin ins)" and ?ins = "snd (TinyMap_begin ins)"
        from w1 w2 walk_exit[OF False \<open>\<not> oi < length old\<close>]
        have c1: "createInserted android meta pv ?ins ?it b = Some (b', meta')"
          and c2: "createInserted android md pv ?ins ?it bd = Some (bd', md')" by simp_all
        have "mapBound ?ins \<le> K"
          using mapBound_begin[of ins ?it ?ins] bi by simp
        from createInserted_sim[OF A off this c1 c2 sub] show ?thesis by simp
      next
        case True
        from w1 obtain meta1 b1 ins1 where
          i1: "insertNew meta pv new ni b ins = Some (meta1, b1, ins1)" and
          r1: "walk android meta1 pv old new idx rem ins1 oi (Suc ni) b1 = Some (b', meta')"
          by (auto simp: walk_new_only[OF False True] split: option.splits)
        from w2 obtain md1 bd1 insd where
          i2: "insertNew md pv new ni bd ins = Some (md1, bd1, insd)" and
          r2: "walk android md1 pv old new idx rem insd oi (Suc ni) bd1 = Some (bd', md')"
          by (auto simp: walk_new_only[OF False True] split: option.splits)
        from insertNew_result[OF i1] insertNew_result[OF i2] insertNew_disabled[OF i2 off]
        have eq: "insd = ins1" "md1 = md" and s: "subsumed b1 bd1"
          using sub by (simp_all add: subsumed_insert)
        have bi1: "mapBound ins1 \<le> K"
          using mapBound_insertNew[OF i1] bi bn by (auto simp: max_def split: if_splits)
        have "(length new - Suc ni) + (length old - oi) < (length new - ni) + (length old - oi)"
          using True by arith
        from less.hyps[OF this r1 r2[unfolded eq] s bi1] show ?thesis .
      qed
    next
      case old: True
      show ?thesis
      proof (cases "TinyMap_find (tag ?v) ins")
        case None
        from w1 walk_old_undefined[OF na old None] show ?thesis by simp
      next
        case (Some f1)
        obtain insertedIt ins1 where f1: "f1 = (insertedIt, ins1)" by (cases f1)
        note fi = Some[unfolded f1]
        have bi1: "mapBound ins1 \<le> K" using mapBound_find[OF fi] bi by simp
        show ?thesis
        proof (cases "insertedIt = TinyMap_end ins1")
          case False
          from w1 obtain k newChildPair ms meta1 ins2 where
            de: "TinyMap_deref insertedIt ins1 = Some (k, newChildPair)" and
            d1: "diff android meta ?v ?og
                   (sliceChildShadowNodeViewPairs android (shadowNode newChildPair)) = Some (ms, meta1)" and
            er: "TinyMap_erase insertedIt ins1 = Some ins2" and
            r1: "walk android meta1 pv old new idx rem ins2 (Suc oi) ni
                  (pushDown (sliceChildShadowNodeViewPairs android (shadowNode newChildPair)) ms
                     (pushUpdate pv ?v (shadowView newChildPair) (int idx)
                        (b\<lparr>removeMutations := removeMutations b @
                             [RemoveMutation pv ?v (int oi)]\<rparr>))) = Some (b', meta')"
            by (auto simp: walk_reordered[OF na old fi False] split: option.splits)
          let ?ng = "sliceChildShadowNodeViewPairs android (shadowNode newChildPair)"
          from w2 de er obtain msd md1 where
            d2: "diff android md ?v ?og ?ng = Some (msd, md1)" and
            r2: "walk android md1 pv old new idx rem ins2 (Suc oi) ni
                  (pushDown ?ng msd
                     (pushUpdate pv ?v (shadowView newChildPair) (int idx)
                        (bd\<lparr>removeMutations := removeMutations bd @
                             [RemoveMutation pv ?v (int oi)]\<rparr>))) = Some (bd', md')"
            by (auto simp: walk_reordered[OF na old fi False] split: option.splits)
          have "pairsBound ?og < K" "pairsBound ?ng < K"
            using pairsBound_slice_nth[OF old, of android] bo
                  mapBound_deref_slice[OF de, of android] bi1 by simp_all
          from simDiffD[OF A[OF this] d1 off d2] have t: "typesOf ms \<subseteq> insert Update (typesOf msd)"
            and m: "md1 = md" by simp_all
          have s: "subsumed
                     (pushDown ?ng ms (pushUpdate pv ?v (shadowView newChildPair) (int idx)
                        (b\<lparr>removeMutations := removeMutations b @ [RemoveMutation pv ?v (int oi)]\<rparr>)))
                     (pushDown ?ng msd (pushUpdate pv ?v (shadowView newChildPair) (int idx)
                        (bd\<lparr>removeMutations := removeMutations bd @ [RemoveMutation pv ?v (int oi)]\<rparr>)))"
            using sub t
            by (intro subsumed_pushDown subsumed_update_right)
               (simp_all add: subsumed_remove)
          have bi2: "mapBound ins2 \<le> K" using mapBound_erase[OF er] bi1 by simp
          have "(length new - ni) + (length old - Suc oi) < (length new - ni) + (length old - oi)"
            using old by arith
          from less.hyps[OF this r1 r2[unfolded m] s bi2] show ?thesis .
        next
          case e1: True
          show ?thesis
          proof (cases "TinyMap_find (tag ?v) rem")
            case None
            from w1 walk_old_undefined2[OF na old fi e1 None] show ?thesis by simp
          next
            case (Some f2)
            obtain newIt rem1 where f2: "f2 = (newIt, rem1)" by (cases f2)
            note fr = Some[unfolded f2]
            show ?thesis
            proof (cases "newIt = TinyMap_end rem1")
              case True
              obtain d meta1 where
                s: "shouldRemoveDeleteUpdate (-1) (shadowNode (old ! oi)) (-1) meta = (d, meta1)"
                by (cases "shouldRemoveDeleteUpdate (-1) (shadowNode (old ! oi)) (-1) meta")
              let ?b1 = "pushRemoved pv (old ! oi) (int oi) d b"
              let ?bd1 = "pushRemoved pv (old ! oi) (int oi) (True, True, None) bd"
              from w1 obtain ms meta2 where
                d1: "diff android meta1 ?v ?og [] = Some (ms, meta2)" and
                r1: "walk android meta2 pv old new idx rem1 ins1 (Suc oi) ni
                      (?b1\<lparr>destructiveDownwardMutations :=
                             destructiveDownwardMutations ?b1 @ ms\<rparr>) = Some (b', meta')"
                by (auto simp: walk_disappeared[OF na old fi e1 fr True s] split: option.splits)
              from w2 obtain msd md2 where
                d2: "diff android md ?v ?og [] = Some (msd, md2)" and
                r2: "walk android md2 pv old new idx rem1 ins1 (Suc oi) ni
                      (?bd1\<lparr>destructiveDownwardMutations :=
                             destructiveDownwardMutations ?bd1 @ msd\<rparr>) = Some (bd', md')"
                by (auto simp: walk_disappeared[OF na old fi e1 fr True disabled_decisions(1)[OF off]]
                    split: option.splits)
              have "pairsBound ?og < K" using pairsBound_slice_nth[OF old, of android] bo by simp
              then have "pairsBound ?og < K" "pairsBound [] < K" by simp_all
              from simDiffD[OF A[OF this] d1 off d2]
              have t: "typesOf ms \<subseteq> insert Update (typesOf msd)" and m: "md2 = md" by simp_all
              have sb: "subsumed
                          (?b1\<lparr>destructiveDownwardMutations := destructiveDownwardMutations ?b1 @ ms\<rparr>)
                          (?bd1\<lparr>destructiveDownwardMutations := destructiveDownwardMutations ?bd1 @ msd\<rparr>)"
                using subsumed_pushRemoved[OF sub] t by (rule subsumed_downward(2))
              have "(length new - ni) + (length old - Suc oi) < (length new - ni) + (length old - oi)"
                using old by arith
              from less.hyps[OF this r1 r2[unfolded m] sb bi1] show ?thesis .
            next
              case False
              from w1 obtain meta1 b1 ins2 where
                i1: "insertNew meta pv new ni b ins1 = Some (meta1, b1, ins2)" and
                r1: "walk android meta1 pv old new idx rem1 ins2 oi (Suc ni) b1 = Some (b', meta')"
                by (auto simp: walk_insert[OF na old fi e1 fr False] split: option.splits)
              from w2 obtain md1 bd1 insd where
                i2: "insertNew md pv new ni bd ins1 = Some (md1, bd1, insd)" and
                r2: "walk android md1 pv old new idx rem1 insd oi (Suc ni) bd1 = Some (bd', md')"
                by (auto simp: walk_insert[OF na old fi e1 fr False] split: option.splits)
              from insertNew_result[OF i1] insertNew_result[OF i2] insertNew_disabled[OF i2 off]
              have eq: "insd = ins2" "md1 = md" and s: "subsumed b1 bd1"
                using sub by (simp_all add: subsumed_insert)
              have bi2: "mapBound ins2 \<le> K"
                using mapBound_insertNew[OF i1] bi1 bn by (auto simp: max_def split: if_splits)
              have "(length new - Suc ni) + (length old - oi) < (length new - ni) + (length old - oi)"
                using insertNew_Some[OF i1] by arith
              from less.hyps[OF this r1 r2[unfolded eq] s bi2] show ?thesis .
            qed
          qed
        qed
      qed
    qed
  qed
qed

lemma diff_sim: "simDiff android pv old new"
proof (induction "max (pairsBound old) (pairsBound new)" arbitrary: pv old new rule: less_induct)
  case less
  let ?K = "max (pairsBound old) (pairsBound new)"
  have A: "\<And>pv' ol nw. pairsBound ol < ?K \<Longrightarrow> pairsBound nw < ?K \<Longrightarrow> simDiff android pv' ol nw"
    by (rule less.hyps) simp
  let ?old = "reorderInPlaceIfNeeded old" and ?new = "reorderInPlaceIfNeeded new"
  have bo: "pairsBound ?old \<le> ?K" and bn: "pairsBound ?new \<le> ?K" by simp_all
  show ?case
    unfolding simDiff_def
  proof (intro allI impI)
    fix meta md ms meta' msd md'
    assume r1: "diff android meta pv old new = Some (ms, meta')" and off: "\<not> enabled md"
      and r2: "diff android md pv old new = Some (msd, md')"
    from r1 obtain b where a1: "activationBuckets android meta pv old new = Some (b, meta')"
      and ms: "ms = allMutations b"
      by (auto simp: diff_activationBuckets)
    from r2 obtain bd where a2: "activationBuckets android md pv old new = Some (bd, md')"
      and msd: "msd = allMutations bd"
      by (auto simp: diff_activationBuckets)
    have "subsumed b bd \<and> md' = md"
    proof (cases "old = [] \<and> new = []")
      case True
      with a1 a2 show ?thesis by (auto simp: activationBuckets_def subsumed_def)
    next
      case False
      from a1 False obtain idx b1 meta1 where
        s1: "stage1 android meta pv ?old ?new 0 Buckets_empty = Some (idx, b1, meta1)" and
        c1: "(if idx = length ?new then removeRest android meta1 pv ?old idx b1
              else if idx = length ?old then createRest android meta1 pv ?new idx b1
              else walk android meta1 pv ?old ?new (snd (fillRemaining ?new idx TinyMap_empty))
                     (fst (fillRemaining ?new idx TinyMap_empty)) TinyMap_empty idx idx b1) =
             Some (b, meta')"
        by (auto simp: activationBuckets_def Let_def case_prod_beta split: option.splits if_splits)
      from a2 False obtain idxd bd1 md1 where
        s2: "stage1 android md pv ?old ?new 0 Buckets_empty = Some (idxd, bd1, md1)" and
        c2: "(if idxd = length ?new then removeRest android md1 pv ?old idxd bd1
              else if idxd = length ?old then createRest android md1 pv ?new idxd bd1
              else walk android md1 pv ?old ?new (snd (fillRemaining ?new idxd TinyMap_empty))
                     (fst (fillRemaining ?new idxd TinyMap_empty)) TinyMap_empty idxd idxd bd1) =
             Some (bd, md')"
        by (auto simp: activationBuckets_def Let_def case_prod_beta split: option.splits if_splits)
      have e: "subsumed Buckets_empty Buckets_empty" by (simp add: subsumed_def)
      from stage1_sim[OF A off bo bn s1 s2 e]
      have eq: "idxd = idx" "md1 = md" and sb: "subsumed b1 bd1" by simp_all
      note c2' = c2[unfolded eq]
      show ?thesis
      proof (cases "idx = length ?new")
        case True
        with c1 c2' removeRest_sim[OF A off bo _ _ sb] show ?thesis by simp
      next
        case nn: False
        show ?thesis
        proof (cases "idx = length ?old")
          case True
          with nn c1 c2' createRest_sim[OF A off bn _ _ sb] show ?thesis by simp
        next
          case False
          with nn c1 c2' walk_sim[OF A off bo bn _ _ sb] show ?thesis by simp
        qed
      qed
    qed
    then show "typesOf ms \<subseteq> insert Update (typesOf msd) \<and> md' = md"
      by (simp add: ms msd subsumed_def bucketTypes_def)
  qed
qed

lemma eraseObviated_subset: "set (eraseObviated meta ms) \<subseteq> set ms"
  by (induction ms arbitrary: meta) (auto simp: Let_def split: option.splits if_splits)

section \<open>Example trees and maps\<close>

text \<open>A view that forms a stacking context, with tag \<open>t\<close>, props \<open>p\<close> and children \<open>cs\<close>.\<close>

definition exView :: "Tag \<Rightarrow> nat \<Rightarrow> ShadowNode list \<Rightarrow> ShadowNode" where
  "exView t p cs =
     ShadowNode t ''View'' p 0 EmptyLayoutMetrics 0 {FormsView, FormsStackingContext} 0 cs"

text \<open>A view that forms no stacking context.\<close>

definition exLeafView :: "Tag \<Rightarrow> ShadowNode list \<Rightarrow> ShadowNode" where
  "exLeafView t cs = ShadowNode t ''Text'' 0 0 EmptyLayoutMetrics 0 {FormsView} 0 cs"

text \<open>Three entries, the middle one erased; and two entries, the one at the front erased.\<close>

definition exMapMiddle :: "nat TinyMap" where
  "exMapMiddle = \<lparr>vector = [(1, 10), (0, 20), (3, 30)], numErased = 1, erasedAtFront = 0\<rparr>"

definition exMapCompact :: "nat TinyMap" where
  "exMapCompact = \<lparr>vector = [(1, 10), (3, 30)], numErased = 0, erasedAtFront = 0\<rparr>"

definition exMapFront :: "nat TinyMap" where
  "exMapFront = \<lparr>vector = [(0, 10), (2, 20)], numErased = 1, erasedAtFront = 1\<rparr>"

lemma exMapMiddle_erase:
  "TinyMap_erase (Some 1)
     (TinyMap_insert (3, 30) (TinyMap_insert (2, 20) (TinyMap_insert (1, 10) TinyMap_empty))) =
   Some exMapMiddle"
  by (simp add: TinyMap_erase_def TinyMap_insert_def TinyMap_empty_def TinyMap_begin'_def
      exMapMiddle_def Let_def)

lemma exMapMiddle_find: "TinyMap_find 3 exMapMiddle = Some (Some 1, exMapCompact)"
  by (simp add: TinyMap_find_def cleanVector_def TinyMap_begin'_def exMapMiddle_def
      exMapCompact_def Let_def find_loop.simps)

lemma exMapMiddle_reachable: "TinyMap_reachable exMapMiddle"
proof -
  have "TinyMap_reachable
          (TinyMap_insert (3, 30) (TinyMap_insert (2, 20) (TinyMap_insert (1, 10) (TinyMap_empty :: nat TinyMap))))"
    by (intro reach_insert reach_empty) simp_all
  then show ?thesis
    by (rule reach_erase[OF _ _ _ exMapMiddle_erase])
       (simp_all add: TinyMap_insert_def TinyMap_empty_def)
qed

lemma exMapFront_erase:
  "TinyMap_erase (Some 0) (TinyMap_insert (2, 20) (TinyMap_insert (1, 10) TinyMap_empty)) =
   Some exMapFront"
  by (simp add: TinyMap_erase_def TinyMap_insert_def TinyMap_empty_def TinyMap_begin'_def
      exMapFront_def Let_def)

lemma exMapFront_find: "TinyMap_find 2 exMapFront = Some (Some 1, exMapFront)"
  by (simp add: TinyMap_find_def cleanVector_def TinyMap_begin'_def exMapFront_def
      Let_def find_loop.simps)

text \<open>
  A parent with the children 2, 3, 4 that becomes a parent with the children 5, 2 (the
  props of 2 changed), and the seven lists of the activation that diffs the two child
  lists with reparenting detection off.
\<close>

definition exOld :: ShadowNode where
  "exOld = exView 1 0 [exView 2 0 [], exView 3 0 [], exView 4 0 []]"

definition exNew :: ShadowNode where
  "exNew = exView 1 0 [exView 5 0 [], exView 2 1 []]"

definition exBuckets :: Buckets where
  "exBuckets =
     \<lparr>createMutations = [CreateMutation (ShadowView_of (exView 5 0 []))],
      deleteMutations = [DeleteMutation (ShadowView_of (exView 3 0 [])),
                         DeleteMutation (ShadowView_of (exView 4 0 []))],
      insertMutations = [InsertMutation (ShadowView_of exOld) (ShadowView_of (exView 5 0 [])) 0],
      removeMutations = [RemoveMutation (ShadowView_of exOld) (ShadowView_of (exView 3 0 [])) 1,
                         RemoveMutation (ShadowView_of exOld) (ShadowView_of (exView 4 0 [])) 2],
      updateMutations = [UpdateMutation (ShadowView_of exOld) (ShadowView_of (exView 2 0 []))
                           (ShadowView_of (exView 2 1 [])) 2],
      downwardMutations = [],
      destructiveDownwardMutations = []\<rparr>"

lemma exBuckets_activation:
  "map_option fst
     (activationBuckets False (ReparentingMetadata_init False) (ShadowView_of exOld)
        (sliceChildShadowNodeViewPairs False exOld) (sliceChildShadowNodeViewPairs False exNew)) =
   Some exBuckets"
  by code_simp

text \<open>What a mutation is, for short: type, tags of parent, old child and new child, index.\<close>

definition mutationSummary :: "ShadowViewMutation \<Rightarrow> Type \<times> Tag \<times> Tag \<times> Tag \<times> int" where
  "mutationSummary m =
     (type m, tag (parentShadowView m), tag (oldChildShadowView m),
      tag (newChildShadowView m), index m)"

text \<open>A child that moves from parent 2 to parent 3, its props changed on the way.\<close>

definition exMoveOld :: ShadowNode where
  "exMoveOld = exView 1 0 [exView 2 0 [exView 9 0 []], exView 3 0 []]"

definition exMoveNew :: ShadowNode where
  "exMoveNew = exView 1 0 [exView 2 0 [], exView 3 0 [exView 9 1 []]]"

lemma exMove_runs:
  "map_option (map type) (calculateShadowViewMutations False exMoveOld exMoveNew True) =
     Some [Remove, Update, Insert] \<and>
   map_option (map type) (calculateShadowViewMutations False exMoveOld exMoveNew False) =
     Some [Remove, Delete, Create, Insert]"
  by code_simp

text \<open>
  The place of a mutation type in the order of the last statements of the recursive
  function (0 and 5 are the places of the two lists filled by recursive calls).
\<close>

fun bucketRank :: "Type \<Rightarrow> nat" where
  "bucketRank Update = 1"
| "bucketRank Remove = 2"
| "bucketRank Delete = 3"
| "bucketRank Create = 4"
| "bucketRank Insert = 6"

lemma sorted_same: "(\<And>x. x \<in> set xs \<Longrightarrow> f x = (c::nat)) \<Longrightarrow> sorted (map f xs)"
  by (induction xs) auto

section \<open>Properties\<close>

text \<open>
  C9. A node whose traits contain FormsView but not FormsStackingContext is a leaf view:
  \<open>sliceChildShadowNodeViewPairs\<close> returns the empty list for it, whatever its children.
\<close>

theorem slice_leaf_view:
  "FormsView \<in> getTraits node \<Longrightarrow> FormsStackingContext \<notin> getTraits node \<Longrightarrow>
   sliceChildShadowNodeViewPairs android node = []"
  by (simp add: sliceChildShadowNodeViewPairs_def)

theorem slice_leaf_view_witness:
  "FormsView \<in> getTraits (exLeafView 1 [exView 2 0 []]) \<and>
   FormsStackingContext \<notin> getTraits (exLeafView 1 [exView 2 0 []]) \<and>
   sliceChildShadowNodeViewPairs False (exLeafView 1 [exView 2 0 []]) = []"
  using slice_leaf_view[of "exLeafView 1 [exView 2 0 []]" False]
  by (simp add: exLeafView_def)

text \<open>
  C4. What \<open>CreateMutation\<close> builds: the parent and the index are as the claim says, but
  the created view is the third initialiser of the list and lands in
  \<open>oldChildShadowView\<close>; \<open>newChildShadowView\<close> is the default view.
\<close>

theorem CreateMutation_fields:
  "type (CreateMutation sv) = Create \<and>
   parentShadowView (CreateMutation sv) = ShadowView_default \<and>
   oldChildShadowView (CreateMutation sv) = sv \<and>
   newChildShadowView (CreateMutation sv) = ShadowView_default \<and>
   index (CreateMutation sv) = -1"
  by (simp add: CreateMutation_def aggregate_def)

text \<open>
  C6. With reparenting detection enabled, \<open>markInserted\<close> on a tag that has no record
  writes the Insert bit through the past-the-end iterator: the call is undefined, and
  the bit never reaches the fresh record.
\<close>

theorem markInserted_fresh_tag:
  "markInserted 1 (exView 2 0 []) 0 (ReparentingMetadata_init True) = None"
  by (simp add: markInserted_def ReparentingMetadata_init_def exView_def)

text \<open>
  C10. Every state of a TinyMap that the public operations reach from the empty map,
  with non-zero keys inserted and live iterators erased, satisfies the invariant:
  \<open>erasedAtFront \<le> numErased \<le> size\<close>, \<open>numErased\<close> is the number of zero-keyed
  entries, and the first \<open>erasedAtFront\<close> entries are zero-keyed.
\<close>

theorem TinyMap_invariant: "TinyMap_reachable m \<Longrightarrow> TinyMap_inv m"
proof (induction rule: TinyMap_reachable.induct)
  case reach_empty
  show ?case by (rule inv_empty)
next
  case (reach_insert m key v)
  then show ?case by (simp add: inv_insert)
next
  case (reach_find m key it m')
  then show ?case using inv_find by blast
next
  case (reach_erase m i m')
  then show ?case using inv_erase by blast
next
  case (reach_begin m it m')
  then show ?case using inv_begin by blast
qed

theorem TinyMap_invariant_witness:
  "TinyMap_reachable exMapCompact \<and> TinyMap_inv exMapCompact"
proof -
  have r: "TinyMap_reachable exMapCompact"
    by (rule reach_find[OF exMapMiddle_reachable exMapMiddle_find])
  from r TinyMap_invariant[OF r] show ?thesis by simp
qed

text \<open>
  C5, as the code has it. In a map that satisfies the invariant, \<open>find\<close> removes the
  zero-keyed entries exactly when the erased count is at least half of the size
  (\<^verbatim>\<open>size() / 2\<close>, an integer division) and some erased entry is not at the front
  (\<open>numErased \<noteq> erasedAtFront\<close>); \<open>begin\<close> removes them exactly when some erased entry
  is not at the front. After a removal no zero-keyed entry is left and both counters
  are 0; without one the map is unchanged.
\<close>

theorem TinyMap_compaction_policy:
  assumes "TinyMap_inv m"
  shows "(TinyMap_find key m = Some (it, m') \<longrightarrow>
            (compacted m m' = (length (vector m) div 2 \<le> numErased m \<and> numErased m \<noteq> erasedAtFront m)) \<and>
            (compacted m m' \<longrightarrow>
               vector m' = filter (\<lambda>item. fst item \<noteq> 0) (vector m) \<and>
               numErased m' = 0 \<and> erasedAtFront m' = 0) \<and>
            (\<not> compacted m m' \<longrightarrow> m' = m)) \<and>
         (TinyMap_begin m = (it, m') \<longrightarrow>
            (compacted m m' = (numErased m \<noteq> erasedAtFront m)) \<and>
            (compacted m m' \<longrightarrow>
               vector m' = filter (\<lambda>item. fst item \<noteq> 0) (vector m) \<and>
               numErased m' = 0 \<and> erasedAtFront m' = 0) \<and>
            (\<not> compacted m m' \<longrightarrow> m' = m))"
  unfolding compacted_def
  using cleanVector_compacts[OF assms, of False]
        cleanVector_compacts[OF assms, of "erasedAtFront m \<noteq> numErased m"]
  by (auto dest!: find_state begin_state)

theorem TinyMap_compaction_policy_witness:
  "TinyMap_inv exMapMiddle \<and> TinyMap_find 3 exMapMiddle = Some (Some 1, exMapCompact) \<and>
   compacted exMapMiddle exMapCompact \<and>
   vector exMapCompact = filter (\<lambda>item. fst item \<noteq> 0) (vector exMapMiddle) \<and>
   numErased exMapCompact = 0 \<and> erasedAtFront exMapCompact = 0"
proof -
  have i: "TinyMap_inv exMapMiddle"
    by (simp add: TinyMap_inv_def exMapMiddle_def isErased_def)
  have c: "compacted exMapMiddle exMapCompact"
    by (simp add: compacted_def exMapMiddle_def exMapCompact_def)
  from TinyMap_compaction_policy[OF i, of 3 "Some 1" exMapCompact] i c exMapMiddle_find
  show ?thesis by simp
qed

text \<open>
  The claim C5 as it is written fails on the map with two entries whose front entry was
  erased: at the cleaning point \<open>find\<close> the erased count, 1, is at least half of the
  size, 2, and the zero-keyed entry stays in the vector.
\<close>

theorem TinyMap_compaction_counterexample:
  "TinyMap_erase (Some 0) (TinyMap_insert (2, 20) (TinyMap_insert (1, 10) TinyMap_empty)) =
     Some exMapFront \<and>
   length (vector exMapFront) \<le> 2 * numErased exMapFront \<and>
   TinyMap_find 2 exMapFront = Some (Some 1, exMapFront) \<and>
   vector exMapFront = [(0, 10), (2, 20)]"
  using exMapFront_erase exMapFront_find by (simp add: exMapFront_def)

text \<open>
  C1. Diffing a tree against itself returns the empty list, whatever the tree, the
  platform and the reparenting flag.
\<close>

theorem null_diff:
  "calculateShadowViewMutations android t t enableReparentingDetection = Some []"
  by (simp add: calculateShadowViewMutations_def null_diff_aux(1) ReparentingMetadata_init_def)

text \<open>
  C2. What an activation of the recursive function appends to the caller's list is the
  concatenation of its seven lists in the order destructive downward, update, remove
  (reversed), delete, create, downward, insert; the five lists of the activation's own
  mutations hold mutations of their type only, so these mutations come in the order
  Update, Remove, Delete, Create, Insert.
\<close>

theorem bucket_order:
  assumes "activationBuckets android meta pv old new = Some (b, meta')"
  shows "diff android meta pv old new =
           Some (destructiveDownwardMutations b @ updateMutations b @ rev (removeMutations b) @
                 deleteMutations b @ createMutations b @ downwardMutations b @
                 insertMutations b, meta') \<and>
         list_all (\<lambda>m. type m = Update) (updateMutations b) \<and>
         list_all (\<lambda>m. type m = Remove) (rev (removeMutations b)) \<and>
         list_all (\<lambda>m. type m = Delete) (deleteMutations b) \<and>
         list_all (\<lambda>m. type m = Create) (createMutations b) \<and>
         list_all (\<lambda>m. type m = Insert) (insertMutations b) \<and>
         sorted (map (\<lambda>m. bucketRank (type m))
                   (updateMutations b @ rev (removeMutations b) @ deleteMutations b @
                    createMutations b @ insertMutations b))"
proof -
  from activation_levelInv[OF assms] obtain n where "levelInv pv n b" ..
  then have t: "bucketsTyped b" by (simp add: levelInv_def)
  have d: "diff android meta pv old new = Some (allMutations b, meta')"
    using assms by (simp add: diff_activationBuckets)
  from t have "sorted (map (\<lambda>m. bucketRank (type m))
                   (updateMutations b @ rev (removeMutations b) @ deleteMutations b @
                    createMutations b @ insertMutations b))"
    by (auto simp: bucketsTyped_def list_all_iff sorted_append intro!: sorted_same)
  with t d show ?thesis
    by (simp add: bucketsTyped_def allMutations_def list_all_iff)
qed

theorem bucket_order_witness:
  "map_option fst
     (activationBuckets False (ReparentingMetadata_init False) (ShadowView_of exOld)
        (sliceChildShadowNodeViewPairs False exOld) (sliceChildShadowNodeViewPairs False exNew)) =
     Some exBuckets \<and>
   map_option (map type \<circ> fst)
     (diff False (ReparentingMetadata_init False) (ShadowView_of exOld)
        (sliceChildShadowNodeViewPairs False exOld) (sliceChildShadowNodeViewPairs False exNew)) =
     Some [Update, Remove, Remove, Delete, Delete, Create, Insert]"
proof -
  from exBuckets_activation obtain meta' where
    a: "activationBuckets False (ReparentingMetadata_init False) (ShadowView_of exOld)
          (sliceChildShadowNodeViewPairs False exOld) (sliceChildShadowNodeViewPairs False exNew) =
        Some (exBuckets, meta')"
    by auto
  from bucket_order[OF a] exBuckets_activation show ?thesis
    by (simp add: exBuckets_def)
qed

text \<open>
  C3. The Remove mutations of one activation are in the appended list as the reversed
  remove list; all of them are removals from the activation's parent view, and their
  indices decrease strictly.
\<close>

theorem remove_reverse_order:
  assumes "activationBuckets android meta pv old new = Some (b, meta')"
  shows "diff android meta pv old new =
           Some (destructiveDownwardMutations b @ updateMutations b @ rev (removeMutations b) @
                 deleteMutations b @ createMutations b @ downwardMutations b @
                 insertMutations b, meta') \<and>
         list_all (\<lambda>m. type m = Remove \<and> parentShadowView m = pv) (rev (removeMutations b)) \<and>
         sorted_wrt (>) (map index (rev (removeMutations b)))"
proof -
  from activation_levelInv[OF assms] obtain n where "levelInv pv n b" ..
  then have t: "bucketsTyped b" and r: "removesAscending pv n b" by (simp_all add: levelInv_def)
  have d: "diff android meta pv old new = Some (allMutations b, meta')"
    using assms by (simp add: diff_activationBuckets)
  have "sorted_wrt (>) (map index (rev (removeMutations b)))"
    using r by (simp add: removesAscending_def sorted_wrt_rev flip: rev_map)
  with t r d show ?thesis
    by (simp add: bucketsTyped_def removesAscending_def allMutations_def list_all_iff)
qed

theorem remove_reverse_order_witness:
  "map_option fst
     (activationBuckets False (ReparentingMetadata_init False) (ShadowView_of exOld)
        (sliceChildShadowNodeViewPairs False exOld) (sliceChildShadowNodeViewPairs False exNew)) =
     Some exBuckets \<and>
   map index (rev (removeMutations exBuckets)) = [2, 1] \<and>
   sorted_wrt (>) (map index (rev (removeMutations exBuckets)))"
proof -
  from exBuckets_activation obtain meta' where
    a: "activationBuckets False (ReparentingMetadata_init False) (ShadowView_of exOld)
          (sliceChildShadowNodeViewPairs False exOld) (sliceChildShadowNodeViewPairs False exNew) =
        Some (exBuckets, meta')"
    by auto
  from remove_reverse_order[OF a] exBuckets_activation show ?thesis
    by (simp add: exBuckets_def)
qed

text \<open>
  C7. In stage 4 the Update of a pair matched at the two cursors is built with the
  variable \<^verbatim>\<open>index\<close>, which the loop that fills \<open>newRemainingPairs\<close> left at the size of
  the new list. Children 2, 3 that become 3, 2 (the props of 2 changed): the Update of 2
  has index 2; the slot of 2 is 0 in the old list and 1 in the new one.
\<close>

theorem update_index_stage4:
  "map_option (map mutationSummary)
     (calculateShadowViewMutations False (exView 1 0 [exView 2 0 [], exView 3 0 []])
        (exView 1 0 [exView 3 0 [], exView 2 1 []]) False) =
   Some [(Update, 1, 2, 2, 2), (Remove, 1, 3, 0, 1), (Insert, 1, 0, 3, 0)]"
  by code_simp

text \<open>
  The claim C8 as it is written fails where a moved node changed as well: with
  reparenting detection on, the move is a Remove, an Update and an Insert; with
  detection off there is no Update.
\<close>

theorem reparenting_types_counterexample:
  "map_option (map type) (calculateShadowViewMutations False exMoveOld exMoveNew True) =
     Some [Remove, Update, Insert] \<and>
   map_option (map type) (calculateShadowViewMutations False exMoveOld exMoveNew False) =
     Some [Remove, Delete, Create, Insert] \<and>
   \<not> set [Remove, Update, Insert] \<subseteq> set [Remove, Delete, Create, Insert]"
  using exMove_runs by simp

text \<open>
  C8, as the code has it. Whenever both runs return a list, every mutation type in the
  list produced with reparenting detection on is Update or a type in the list produced
  with detection off: detection drops Create, Delete, Insert and Remove mutations and
  adds Update mutations only.
\<close>

theorem reparenting_types:
  assumes on: "calculateShadowViewMutations android oldRoot newRoot True = Some ms_on"
    and off: "calculateShadowViewMutations android oldRoot newRoot False = Some ms_off"
  shows "type ` set ms_on \<subseteq> insert Update (type ` set ms_off)"
proof -
  let ?pv = "ShadowView_of oldRoot"
  let ?old = "sliceChildShadowNodeViewPairs android oldRoot"
  let ?new = "sliceChildShadowNodeViewPairs android newRoot"
  let ?m0 = "(if ShadowView_of oldRoot \<noteq> ShadowView_of newRoot
              then [UpdateMutation ShadowView_default (ShadowView_of oldRoot) (ShadowView_of newRoot) (-1)]
              else [])"
  from on obtain ms meta where
    d1: "diff android (ReparentingMetadata_init True) ?pv ?old ?new = Some (ms, meta)" and
    r1: "ms_on = ?m0 @ ms \<or> ms_on = eraseObviated (removeUselessRecords meta) (?m0 @ ms)"
    by (auto simp: calculateShadowViewMutations_def Let_def split: option.splits if_splits)
  from off obtain msd md where
    d2: "diff android (ReparentingMetadata_init False) ?pv ?old ?new = Some (msd, md)" and
    r2: "ms_off = ?m0 @ msd"
    by (auto simp: calculateShadowViewMutations_def Let_def split: option.splits if_splits)
  have "\<not> enabled (ReparentingMetadata_init False)" by (simp add: ReparentingMetadata_init_def)
  from simDiffD[OF diff_sim d1 this d2] have t: "typesOf ms \<subseteq> insert Update (typesOf msd)" by simp
  from r1 have "set ms_on \<subseteq> set (?m0 @ ms)"
    using eraseObviated_subset[of "removeUselessRecords meta" "?m0 @ ms"] by auto
  then have "type ` set ms_on \<subseteq> typesOf (?m0 @ ms)" by (auto simp: typesOf_def)
  also have "\<dots> \<subseteq> insert Update (typesOf (?m0 @ msd))" using t by auto
  finally show ?thesis by (simp add: r2 typesOf_def)
qed

theorem reparenting_types_witness:
  "\<exists>ms_on ms_off.
     calculateShadowViewMutations False exMoveOld exMoveNew True = Some ms_on \<and>
     calculateShadowViewMutations False exMoveOld exMoveNew False = Some ms_off \<and>
     type ` set ms_on \<subseteq> insert Update (type ` set ms_off)"
proof -
  from exMove_runs obtain ms_on ms_off where
    on: "calculateShadowViewMutations False exMoveOld exMoveNew True = Some ms_on" and
    off: "calculateShadowViewMutations False exMoveOld exMoveNew False = Some ms_off"
    by auto
  from reparenting_types[OF on off] on off show ?thesis by blast
qed

end
